theory Spec2Isabelle
  imports Main "HOL-Library.Char_ord" "HOL-Library.List_Lexorder"
begin

text \<open>
  A shallow embedding of \<^verbatim>\<open>amocrm_api_middleware/oauth/client.py\<close> and
  \<^verbatim>\<open>amocrm_api_middleware/_utils.py\<close>: the OAuth client (authorization URL, exchange and
  refresh of tokens, expiry of a JWT) and the chunked file upload. A function that raises
  returns \<open>Inl\<close> of the exception; a function that changes the client or talks to the
  network returns the client and the list of requests as it leaves them. A name that
  starts with an underscore in the source is written without it (\<open>make_request\<close>,
  \<open>decode_timestamp\<close>); \<^verbatim>\<open>_decode_jwt\<close> of \<^verbatim>\<open>_utils.py\<close> is \<open>utils_decode_jwt\<close>.
\<close>

section \<open>Exceptions and the HTTP collaborator\<close>

text \<open>
  The exceptions that the two source files can raise. \<open>OAuthError\<close> is the only exception
  class of the package itself (imported from \<^verbatim>\<open>.exceptions\<close>); it carries its message. The
  others are Python built-ins or exceptions of the \<^verbatim>\<open>requests\<close> library: \<open>HTTPError\<close> is what
  \<^verbatim>\<open>response.raise_for_status()\<close> raises (with the status), \<open>RequestException\<close> a transport
  failure (with its message), \<open>MissingSchema\<close> what \<^verbatim>\<open>requests.post(None, ...)\<close> raises before
  any traffic, \<open>JSONDecodeError\<close> what \<^verbatim>\<open>response.json()\<close> raises on a body that is not JSON.
  \<open>TimestampOutOfRange\<close> stands for what \<^verbatim>\<open>datetime.utcfromtimestamp\<close> raises on an integer
  outside the years 1 to 9999: \<^verbatim>\<open>ValueError\<close> ("year 10000 is out of range"), or
  \<^verbatim>\<open>OverflowError\<close> or \<^verbatim>\<open>OSError\<close> further out.
\<close>

datatype error =
    OAuthError string
  | ValueError
  | TypeError
  | KeyError string
  | AttributeError
  | OSError
  | HTTPError int
  | RequestException string
  | MissingSchema
  | JSONDecodeError
  | TimestampOutOfRange

text \<open>
  Strings are byte lists: a Python \<^verbatim>\<open>str\<close> is represented by its UTF-8 encoding. A response
  is what the code reads of a \<^verbatim>\<open>requests.Response\<close>: \<^verbatim>\<open>status_code\<close>, \<^verbatim>\<open>text\<close> and the result of
  \<^verbatim>\<open>json()\<close>, a \<^verbatim>\<open>Dict[str, str]\<close> as the source annotates it (\<open>None\<close>: the body is not JSON
  and \<^verbatim>\<open>json()\<close> raises).
\<close>

record response =
  status_code :: int
  body_text :: string
  body_json :: "(string \<rightharpoonup> string) option"

text \<open>
  JSON values as Python holds them after \<^verbatim>\<open>json.loads\<close>: \<open>JNull\<close> is \<^verbatim>\<open>None\<close>, an object is a
  dictionary, written as the list of its entries (the keys of a dictionary are distinct).
  Numbers with a fraction or an exponent (Python floats) are not part of the model.
\<close>

datatype json_value =
    JNull
  | JBool bool
  | JInt int
  | JString string
  | JArray "json_value list"
  | JObject "(string \<times> json_value) list"

text \<open>
  The body of a request: none, \<^verbatim>\<open>json=data\<close> with a dictionary of strings, \<^verbatim>\<open>data=json.dumps(v)\<close>
  (kept as the value \<open>v\<close> that is printed), or \<^verbatim>\<open>data=\<close> raw bytes.
\<close>

datatype http_body =
    NoBody
  | JsonBody "(string \<times> string) list"
  | DumpsBody json_value
  | DataBody string

record request =
  http_method :: string
  url :: string
  headers :: "(string \<times> string) list"
  body :: http_body

datatype http_result = Raises string | Responds response

text \<open>
  The network answers a request given the requests made before it. Every function that
  talks to the network takes the list of requests made so far and returns the extended list.
\<close>

type_synonym network = "request list \<Rightarrow> request \<Rightarrow> http_result"

section \<open>OAuthClient\<close>

text \<open>
  Modelled from the spec: \<^verbatim>\<open>OAuthConfig\<close> (module \<^verbatim>\<open>oauth/config.py\<close>) is
  \<^verbatim>\<open>{client_id, client_secret, redirect_uri}\<close>, immutable, supplied at construction.
\<close>

record oauth_config =
  client_id :: string
  client_secret :: string
  redirect_uri :: string

record oauth_client =
  config :: oauth_config
  access_token :: "string option"
  refresh_token :: "string option"
  longlive_token :: "string option"
  api_key :: "string option"
  base_url :: "string option"

definition init_client :: "oauth_config \<Rightarrow> oauth_client" where
  "init_client cfg =
     \<lparr>config = cfg, access_token = None, refresh_token = None, longlive_token = None,
      api_key = None, base_url = None\<rparr>"

subsection \<open>urllib.parse.urlencode\<close>

text \<open>
  \<^verbatim>\<open>urlencode\<close> joins \<^verbatim>\<open>quote_plus(k) + '=' + quote_plus(v)\<close> with \<^verbatim>\<open>&\<close>. \<^verbatim>\<open>quote_plus\<close> keeps the
  unreserved characters, turns a space into \<^verbatim>\<open>+\<close> and writes every other byte of the UTF-8
  encoding as \<^verbatim>\<open>%XX\<close> in upper-case hexadecimal.
\<close>

definition always_safe :: "char \<Rightarrow> bool" where
  "always_safe c \<longleftrightarrow>
     c \<in> set ''ABCDEFGHIJKLMNOPQRSTUVWXYZabcdefghijklmnopqrstuvwxyz0123456789_.-~''"

definition hex_digit :: "nat \<Rightarrow> char" where
  "hex_digit n = ''0123456789ABCDEF'' ! (n mod 16)"

definition quote_byte :: "char \<Rightarrow> string" where
  "quote_byte c =
     (if always_safe c then [c]
      else if c = CHR '' '' then ''+''
      else [CHR ''%'', hex_digit (of_char c div 16), hex_digit (of_char c mod 16)])"

definition quote_plus :: "string \<Rightarrow> string" where
  "quote_plus s = concat (map quote_byte s)"

fun join_with :: "string \<Rightarrow> string list \<Rightarrow> string" where
  "join_with sep [] = []"
| "join_with sep [x] = x"
| "join_with sep (x # y # ys) = x @ sep @ join_with sep (y # ys)"

definition encode_params :: "(string \<times> string) list \<Rightarrow> string" where
  "encode_params params =
     join_with ''&'' (map (\<lambda>(k, v). quote_plus k @ ''='' @ quote_plus v) params)"

subsection \<open>get_authorization_url\<close>

text \<open>
  The dictionary \<^verbatim>\<open>params\<close> is built in the order \<^verbatim>\<open>client_id, state, mode\<close>; the
  comprehension drops the entries whose value is \<^verbatim>\<open>None\<close> and keeps the order.
\<close>

definition get_authorization_url :: "oauth_client \<Rightarrow> string option \<Rightarrow> string option \<Rightarrow> string" where
  "get_authorization_url c state mode =
     (let params = [(''client_id'', Some (client_id (config c))), (''state'', state), (''mode'', mode)];
          params = List.map_filter (\<lambda>(key, v). map_option (Pair key) v) params
      in ''https://www.amocrm.ru/oauth?'' @ encode_params params)"

subsection \<open>Requests\<close>

text \<open>
  \<^verbatim>\<open>_make_request\<close>: the four methods go to the network, and a \<^verbatim>\<open>requests.RequestException\<close> is
  translated into \<open>OAuthError\<close>. An unsupported method raises \<open>ValueError\<close> inside the
  \<^verbatim>\<open>try\<close>, which the handler does not catch. \<^verbatim>\<open>requests.get\<close> is called without a body.
\<close>

definition send_request :: "network \<Rightarrow> request list \<Rightarrow> request \<Rightarrow> (error + response) \<times> request list" where
  "send_request net log req =
     (case net log req of
        Raises msg \<Rightarrow> (Inl (OAuthError (''Request failed: '' @ msg)), log @ [req])
      | Responds r \<Rightarrow> (Inr r, log @ [req]))"

definition make_request ::
  "network \<Rightarrow> request list \<Rightarrow> string \<Rightarrow> string \<Rightarrow> (string \<times> string) list \<Rightarrow>
   (string \<times> string) list option \<Rightarrow> (error + response) \<times> request list" where
  "make_request net log u meth hdrs data =
     (if meth = ''GET'' then
        send_request net log \<lparr>http_method = ''GET'', url = u, headers = hdrs, body = NoBody\<rparr>
      else if meth = ''POST'' \<or> meth = ''PATCH'' \<or> meth = ''PUT'' then
        send_request net log
          \<lparr>http_method = meth, url = u, headers = hdrs,
           body = (case data of None \<Rightarrow> NoBody | Some d \<Rightarrow> JsonBody d)\<rparr>
      else (Inl ValueError, log))"

text \<open>
  \<^verbatim>\<open>_make_post_request\<close>: any status other than 200 is an \<open>OAuthError\<close> carrying the response
  text; otherwise the JSON body is returned.
\<close>

definition make_post_request ::
  "network \<Rightarrow> request list \<Rightarrow> string \<Rightarrow> (string \<times> string) list \<Rightarrow>
   (error + (string \<rightharpoonup> string)) \<times> request list" where
  "make_post_request net log u data =
     (case make_request net log u ''POST'' [] (Some data) of
        (Inl e, log') \<Rightarrow> (Inl e, log')
      | (Inr r, log') \<Rightarrow>
          if status_code r \<noteq> 200 then
            (Inl (OAuthError (''Failed to post to '' @ u @ '': '' @ body_text r)), log')
          else (case body_json r of
                  None \<Rightarrow> (Inl JSONDecodeError, log')
                | Some d \<Rightarrow> (Inr d, log')))"

subsection \<open>get_access_token and refresh_access_token\<close>

text \<open>An f-string prints \<^verbatim>\<open>None\<close> as the text \<^verbatim>\<open>None\<close>.\<close>

definition format_opt :: "string option \<Rightarrow> string" where
  "format_opt v = (case v of None \<Rightarrow> ''None'' | Some s \<Rightarrow> s)"

text \<open>
  Both functions return the result, the client as the call leaves it (also when it raises),
  and the requests made. \<^verbatim>\<open>token_data["access_token"]\<close> raises \<open>KeyError\<close> on a missing key;
  \<^verbatim>\<open>token_data.get("refresh_token")\<close> is \<open>None\<close> on a missing key.
\<close>

definition store_tokens ::
  "oauth_client \<Rightarrow> (error + (string \<rightharpoonup> string)) \<times> request list \<Rightarrow>
   (error + (string \<rightharpoonup> string)) \<times> oauth_client \<times> request list" where
  "store_tokens c res =
     (case res of
        (Inl e, log') \<Rightarrow> (Inl e, c, log')
      | (Inr token_data, log') \<Rightarrow>
          (case token_data ''access_token'' of
             None \<Rightarrow> (Inl (KeyError ''access_token''), c, log')
           | Some a \<Rightarrow>
               (Inr token_data,
                c\<lparr>access_token := Some a, refresh_token := token_data ''refresh_token''\<rparr>,
                log')))"

definition get_access_token ::
  "network \<Rightarrow> request list \<Rightarrow> oauth_client \<Rightarrow> string \<Rightarrow> string \<Rightarrow>
   (error + (string \<rightharpoonup> string)) \<times> oauth_client \<times> request list" where
  "get_access_token net log c authorization_code subdomain =
     (let c1 = c\<lparr>base_url := Some (''https://'' @ subdomain @ ''.amocrm.ru'')\<rparr>;
          u = format_opt (base_url c1) @ ''/oauth2/access_token'';
          data = [(''client_id'', client_id (config c1)),
                  (''client_secret'', client_secret (config c1)),
                  (''redirect_uri'', redirect_uri (config c1)),
                  (''code'', authorization_code),
                  (''grant_type'', ''authorization_code'')]
      in store_tokens c1 (make_post_request net log u data))"

definition refresh_access_token ::
  "network \<Rightarrow> request list \<Rightarrow> oauth_client \<Rightarrow>
   (error + (string \<rightharpoonup> string)) \<times> oauth_client \<times> request list" where
  "refresh_access_token net log c =
     (case refresh_token c of
        None \<Rightarrow> (Inl (OAuthError ''No refresh token available''), c, log)
      | Some rt \<Rightarrow>
          if rt = [] then (Inl (OAuthError ''No refresh token available''), c, log)
          else
            (let u = format_opt (base_url c) @ ''/oauth2/access_token'';
                 data = [(''client_id'', client_id (config c)),
                         (''client_secret'', client_secret (config c)),
                         (''grant_type'', ''refresh_token''),
                         (''refresh_token'', rt)]
             in store_tokens c (make_post_request net log u data)))"

section \<open>FileUploadManager\<close>

text \<open>
  The manager holds the bearer token (the attribute \<^verbatim>\<open>access_token\<close>) and
  \<^verbatim>\<open>max_part_size\<close>. The file system maps a path to the bytes of the file at that path;
  \<^verbatim>\<open>os.path.getsize\<close> and \<^verbatim>\<open>open\<close> raise \<open>OSError\<close> where there is none. What the functions
  print is left out.
\<close>

record file_upload_manager =
  bearer_token :: string
  max_part_size :: int

type_synonym filesystem = "string \<rightharpoonup> string"

text \<open>
  \<^verbatim>\<open>requests.post\<close> as the manager calls it, outside any \<^verbatim>\<open>try\<close>: a transport failure
  reaches the caller as the \<^verbatim>\<open>requests\<close> exception it is. \<^verbatim>\<open>raise_for_status\<close> raises for the
  statuses 400 to 599.
\<close>

definition requests_post :: "network \<Rightarrow> request list \<Rightarrow> request \<Rightarrow> (error + response) \<times> request list" where
  "requests_post net log req =
     (case net log req of
        Raises msg \<Rightarrow> (Inl (RequestException msg), log @ [req])
      | Responds r \<Rightarrow> (Inr r, log @ [req]))"

definition raise_for_status :: "response \<Rightarrow> error option" where
  "raise_for_status r =
     (if 400 \<le> status_code r \<and> status_code r < 600 then Some (HTTPError (status_code r))
      else None)"

definition session_request :: "file_upload_manager \<Rightarrow> string \<Rightarrow> int \<Rightarrow> request" where
  "session_request m file_name file_size =
     \<lparr>http_method = ''POST'', url = ''https://drive-b.amocrm.ru/v1.0/sessions'',
      headers = [(''Content-Type'', ''application/json''),
                 (''Authorization'', ''Bearer '' @ bearer_token m)],
      body = DumpsBody (JObject [(''file_name'', JString file_name),
                                 (''file_size'', JInt file_size),
                                 (''content_type'', JString ''image/jpeg'')])\<rparr>"

definition create_session ::
  "file_upload_manager \<Rightarrow> network \<Rightarrow> request list \<Rightarrow> string \<Rightarrow> int \<Rightarrow>
   (error + string) \<times> request list" where
  "create_session m net log file_name file_size =
     (case requests_post net log (session_request m file_name file_size) of
        (Inl e, log') \<Rightarrow> (Inl e, log')
      | (Inr r, log') \<Rightarrow>
          (case raise_for_status r of
             Some e \<Rightarrow> (Inl e, log')
           | None \<Rightarrow>
               (case body_json r of
                  None \<Rightarrow> (Inl JSONDecodeError, log')
                | Some d \<Rightarrow>
                    (case d ''upload_url'' of
                       None \<Rightarrow> (Inl (KeyError ''upload_url''), log')
                     | Some u \<Rightarrow> (Inr u, log')))))"

definition chunk_request :: "file_upload_manager \<Rightarrow> string \<Rightarrow> string \<Rightarrow> request" where
  "chunk_request m upload_url file_chunk =
     \<lparr>http_method = ''POST'', url = upload_url,
      headers = [(''Content-Type'', ''image/jpeg''),
                 (''Authorization'', ''Bearer '' @ bearer_token m)],
      body = DataBody file_chunk\<rparr>"

text \<open>
  \<^verbatim>\<open>upload_chunk\<close> returns \<^verbatim>\<open>response.json().get('next_url')\<close>, which is \<open>None\<close> when the
  answer has no such key; the next call then receives \<open>None\<close> as its URL, and
  \<^verbatim>\<open>requests.post(None, ...)\<close> raises \<open>MissingSchema\<close> without sending anything.
\<close>

definition upload_chunk ::
  "file_upload_manager \<Rightarrow> network \<Rightarrow> request list \<Rightarrow> string \<Rightarrow> string option \<Rightarrow>
   (error + string option) \<times> request list" where
  "upload_chunk m net log file_chunk upload_url =
     (case upload_url of
        None \<Rightarrow> (Inl MissingSchema, log)
      | Some u \<Rightarrow>
          (case requests_post net log (chunk_request m u file_chunk) of
             (Inl e, log') \<Rightarrow> (Inl e, log')
           | (Inr r, log') \<Rightarrow>
               (case raise_for_status r of
                  Some e \<Rightarrow> (Inl e, log')
                | None \<Rightarrow>
                    (case body_json r of
                       None \<Rightarrow> (Inl JSONDecodeError, log')
                     | Some d \<Rightarrow> (Inr (d ''next_url''), log')))))"

text \<open>
  The generator \<^verbatim>\<open>upload_file_in_parts\<close>: \<^verbatim>\<open>file.read(n)\<close> returns the next \<open>n\<close> bytes (fewer at
  the end of the file), everything that is left when \<open>n\<close> is negative, and nothing when \<open>n\<close>
  is 0; the loop ends at the first empty read.
\<close>

function read_parts :: "int \<Rightarrow> string \<Rightarrow> string list" where
  "read_parts n data =
     (if data = [] then []
      else if n < 0 then [data]
      else if n = 0 then []
      else take (nat n) data # read_parts n (drop (nat n) data))"
  by pat_completeness auto
termination
  by (relation "measure (\<lambda>(n, data). length data)") auto

declare read_parts.simps [simp del]

definition upload_file_in_parts ::
  "file_upload_manager \<Rightarrow> filesystem \<Rightarrow> string \<Rightarrow> error + string list" where
  "upload_file_in_parts m fs file_path =
     (case fs file_path of
        None \<Rightarrow> Inl OSError
      | Some data \<Rightarrow> Inr (read_parts (max_part_size m) data))"

fun upload_parts ::
  "file_upload_manager \<Rightarrow> network \<Rightarrow> request list \<Rightarrow> string option \<Rightarrow> string list \<Rightarrow>
   (error + unit) \<times> request list" where
  "upload_parts m net log upload_url [] = (Inr (), log)"
| "upload_parts m net log upload_url (part # parts) =
     (case upload_chunk m net log part upload_url of
        (Inl e, log') \<Rightarrow> (Inl e, log')
      | (Inr next_url, log') \<Rightarrow> upload_parts m net log' next_url parts)"

text \<open>
  \<^verbatim>\<open>upload_file\<close>: the size of the file is read first, then the session is created, then the
  generator starts and each part goes to the URL that the call before it returned.
\<close>

definition upload_file ::
  "file_upload_manager \<Rightarrow> network \<Rightarrow> filesystem \<Rightarrow> request list \<Rightarrow> string \<Rightarrow> string \<Rightarrow>
   (error + unit) \<times> request list" where
  "upload_file m net fs log file_path file_name =
     (case fs file_path of
        None \<Rightarrow> (Inl OSError, log)
      | Some data \<Rightarrow>
          (case create_session m net log file_name (int (length data)) of
             (Inl e, log1) \<Rightarrow> (Inl e, log1)
           | (Inr upload_url, log1) \<Rightarrow>
               (case upload_file_in_parts m fs file_path of
                  Inl e \<Rightarrow> (Inl e, log1)
                | Inr parts \<Rightarrow> upload_parts m net log1 (Some upload_url) parts)))"

section \<open>JWT payloads and expiry\<close>

subsection \<open>_decode_jwt\<close>

text \<open>
  \<^verbatim>\<open>token.split(".")\<close>: the segments between the dots, one more than there are dots.
\<close>

primrec split_on :: "char \<Rightarrow> string \<Rightarrow> string list" where
  "split_on sep [] = [[]]"
| "split_on sep (c # cs) =
     (if c = sep then [] # split_on sep cs
      else (case split_on sep cs of
              [] \<Rightarrow> [[c]]
            | seg # segs \<Rightarrow> (c # seg) # segs))"

text \<open>
  \<^verbatim>\<open>base64.urlsafe_b64decode\<close> encodes its \<^verbatim>\<open>str\<close> argument as ASCII (\<open>ValueError\<close> on any other
  character), maps \<^verbatim>\<open>-\<close> to \<^verbatim>\<open>+\<close> and \<^verbatim>\<open>_\<close> to \<^verbatim>\<open>/\<close>, and decodes without validation:
  \<open>a2b_base64\<close> is the loop of \<^verbatim>\<open>binascii.a2b_base64\<close>. A character outside the alphabet is
  skipped; padding ends the input once the current group holds at least two characters and
  padding fills it; at the end of the input a group in progress is an error
  (\<^verbatim>\<open>binascii.Error\<close>, a \<open>ValueError\<close>). \<open>quad_pos\<close> counts the characters of the current group,
  \<open>leftchar\<close> holds the bits not yet written, \<open>pads\<close> the padding seen since the last
  character of the alphabet. \<open>b64_value\<close> is the position of a character in the alphabet
  \<^verbatim>\<open>A-Z a-z 0-9 + /\<close>. The shifts and masks of the loop are written as arithmetic:
  \<^verbatim>\<open>(leftchar << 2) | (this_ch >> 4)\<close> is \<open>leftchar * 4 + v div 16\<close>, and
  \<^verbatim>\<open>this_ch & 0x0f\<close> is \<open>v mod 16\<close>.
\<close>

definition b64_value :: "char \<Rightarrow> nat option" where
  "b64_value c =
     (let n = (of_char c :: nat) in
      if 65 \<le> n \<and> n \<le> 90 then Some (n - 65)
      else if 97 \<le> n \<and> n \<le> 122 then Some (n - 71)
      else if 48 \<le> n \<and> n \<le> 57 then Some (n + 4)
      else if c = CHR ''+'' then Some 62
      else if c = CHR ''/'' then Some 63
      else None)"

fun a2b_base64 :: "string \<Rightarrow> nat \<Rightarrow> nat \<Rightarrow> nat \<Rightarrow> string \<Rightarrow> error + string" where
  "a2b_base64 [] quad_pos leftchar pads out = (if quad_pos \<noteq> 0 then Inl ValueError else Inr out)"
| "a2b_base64 (c # cs) quad_pos leftchar pads out =
     (if c = CHR ''='' then
        (if 2 \<le> quad_pos \<and> 4 \<le> quad_pos + (pads + 1) then Inr out
         else a2b_base64 cs quad_pos leftchar (if 2 \<le> quad_pos then pads + 1 else pads) out)
      else
        (case b64_value c of
           None \<Rightarrow> a2b_base64 cs quad_pos leftchar pads out
         | Some v \<Rightarrow>
             if quad_pos = 0 then a2b_base64 cs 1 v 0 out
             else if quad_pos = 1 then
               a2b_base64 cs 2 (v mod 16) 0 (out @ [char_of (leftchar * 4 + v div 16)])
             else if quad_pos = 2 then
               a2b_base64 cs 3 (v mod 4) 0 (out @ [char_of (leftchar * 16 + v div 4)])
             else a2b_base64 cs 0 0 0 (out @ [char_of (leftchar * 64 + v)])))"

definition urlsafe_translate :: "char \<Rightarrow> char" where
  "urlsafe_translate c = (if c = CHR ''-'' then CHR ''+'' else if c = CHR ''_'' then CHR ''/'' else c)"

definition urlsafe_b64decode :: "string \<Rightarrow> error + string" where
  "urlsafe_b64decode s =
     (if \<exists>c \<in> set s. 128 \<le> (of_char c :: nat) then Inl ValueError
      else a2b_base64 (map urlsafe_translate s) 0 0 0 [])"

text \<open>
  \<^verbatim>\<open>bytes.decode("utf-8")\<close> raises \<^verbatim>\<open>UnicodeDecodeError\<close> (a \<open>ValueError\<close>) unless the bytes are
  well-formed UTF-8: no overlong forms, no surrogates, nothing above U+10FFFF. On
  well-formed bytes it returns the string that these bytes represent.
\<close>

definition between :: "nat \<Rightarrow> nat \<Rightarrow> char \<Rightarrow> bool" where
  "between lo hi c \<longleftrightarrow> lo \<le> (of_char c :: nat) \<and> (of_char c :: nat) \<le> hi"

fun utf8_valid :: "string \<Rightarrow> bool" where
  "utf8_valid [] = True"
| "utf8_valid (b # bs) =
     (let n = (of_char b :: nat) in
      if n < 128 then utf8_valid bs
      else if 194 \<le> n \<and> n \<le> 223 then
        (case bs of c1 # r \<Rightarrow> between 128 191 c1 \<and> utf8_valid r | _ \<Rightarrow> False)
      else if 224 \<le> n \<and> n \<le> 239 then
        (case bs of
           c1 # c2 # r \<Rightarrow>
             between (if n = 224 then 160 else 128) (if n = 237 then 159 else 191) c1
             \<and> between 128 191 c2 \<and> utf8_valid r
         | _ \<Rightarrow> False)
      else if 240 \<le> n \<and> n \<le> 244 then
        (case bs of
           c1 # c2 # c3 # r \<Rightarrow>
             between (if n = 240 then 144 else 128) (if n = 244 then 143 else 191) c1
             \<and> between 128 191 c2 \<and> between 128 191 c3 \<and> utf8_valid r
         | _ \<Rightarrow> False)
      else False)"

text \<open>
  \<^verbatim>\<open>_decode_jwt\<close> of \<^verbatim>\<open>_utils.py\<close>. \<^verbatim>\<open>json.loads\<close> is a parameter: \<open>loads s\<close> is the value that
  the text \<open>s\<close> denotes, \<open>None\<close> where \<^verbatim>\<open>json.loads\<close> raises \<^verbatim>\<open>JSONDecodeError\<close> (a
  \<open>ValueError\<close>). Every exception in the \<^verbatim>\<open>try\<close> block is a \<open>ValueError\<close> and is raised again.
\<close>

definition utils_decode_jwt :: "(string \<Rightarrow> json_value option) \<Rightarrow> string \<Rightarrow> error + json_value" where
  "utils_decode_jwt loads token =
     (case split_on CHR ''.'' token of
        [header_b64, payload_b64, signature_b64] \<Rightarrow>
          (case urlsafe_b64decode (payload_b64 @ ''=='') of
             Inl e \<Rightarrow> Inl ValueError
           | Inr payload_bytes \<Rightarrow>
               if \<not> utf8_valid payload_bytes then Inl ValueError
               else (case loads payload_bytes of
                       None \<Rightarrow> Inl ValueError
                     | Some payload \<Rightarrow> Inr payload))
      | _ \<Rightarrow> Inl ValueError)"

subsection \<open>datetime\<close>

text \<open>
  \<^verbatim>\<open>datetime.utcfromtimestamp\<close> on an integer: the proleptic Gregorian calendar, computed as
  the \<^verbatim>\<open>datetime\<close> module computes a date from its ordinal (\<^verbatim>\<open>_ord2ymd\<close>; day 1 is
  0001-01-01 and 1970-01-01 is day 719163). Python's \<^verbatim>\<open>//\<close> and \<^verbatim>\<open>%\<close> round down, as \<open>div\<close> and
  \<open>mod\<close> do on \<open>int\<close>.
\<close>

record datetime =
  year :: int
  month :: int
  day :: int
  hour :: int
  minute :: int
  second :: int

definition is_leap :: "int \<Rightarrow> bool" where
  "is_leap y \<longleftrightarrow> y mod 4 = 0 \<and> (y mod 100 \<noteq> 0 \<or> y mod 400 = 0)"

text \<open>
  The month and the day of the month from the day of the year \<open>n\<close> (counted from 0): the
  month is estimated as \<^verbatim>\<open>(n + 50) >> 5\<close> and corrected when the estimate is too large.
\<close>

definition month_day :: "bool \<Rightarrow> int \<Rightarrow> int \<times> int" where
  "month_day leapyear n =
     (let m = (n + 50) div 32;
          preceding = [0, 31, 59, 90, 120, 151, 181, 212, 243, 273, 304, 334] ! nat (m - 1)
                        + (if 2 < m \<and> leapyear then 1 else 0)
      in if n < preceding
         then (m - 1,
               n - (preceding
                    - ([31, 28, 31, 30, 31, 30, 31, 31, 30, 31, 30, 31] ! nat (m - 2)
                       + (if m - 1 = 2 \<and> leapyear then 1 else 0))) + 1)
         else (m, n - preceding + 1))"

text \<open>
  The ordinal is split into 400-year cycles of 146097 days, centuries of 36524 days,
  4-year cycles of 1461 days and years of 365 days; the last day of a 4-year or of a
  400-year cycle is the 31st of December of the year before the one the division gives.
\<close>

definition ord2ymd :: "int \<Rightarrow> int \<times> int \<times> int" where
  "ord2ymd ordinal =
     (let n = ordinal - 1;
          n400 = n div 146097; n = n mod 146097;
          n100 = n div 36524; n = n mod 36524;
          n4 = n div 1461; n = n mod 1461;
          n1 = n div 365; n = n mod 365;
          y = n400 * 400 + 1 + n100 * 100 + n4 * 4 + n1
      in if n1 = 4 \<or> n100 = 4 then (y - 1, 12, 31)
         else
           (let leapyear = (n1 = 3 \<and> (n4 \<noteq> 24 \<or> n100 = 3));
                (m, d) = month_day leapyear n
            in (y, m, d)))"

definition gmtime :: "int \<Rightarrow> datetime" where
  "gmtime t =
     (let days = t div 86400; secs = t mod 86400;
          (y, m, d) = ord2ymd (days + 719163)
      in \<lparr>year = y, month = m, day = d,
          hour = secs div 3600, minute = secs mod 3600 div 60, second = secs mod 60\<rparr>)"

definition utcfromtimestamp :: "int \<Rightarrow> error + datetime" where
  "utcfromtimestamp t =
     (let dt = gmtime t in
      if year dt < 1 \<or> 9999 < year dt then Inl TimestampOutOfRange else Inr dt)"

text \<open>
  \<^verbatim>\<open>strftime('%Y-%m-%d %H:%M:%S')\<close>. Month, day, hour, minute and second are printed with two
  digits. The year is printed with four digits from the year 1000 on; below, the C
  library decides: \<open>pads\<close> says whether it pads the year with zeros (it does not with glibc,
  where the year 999 is printed as \<^verbatim>\<open>999\<close>).
\<close>

definition digit :: "nat \<Rightarrow> char" where
  "digit n = char_of (48 + n mod 10)"

definition zero_padded :: "nat \<Rightarrow> int \<Rightarrow> string" where
  "zero_padded width n = map (\<lambda>i. digit (nat n div 10 ^ i)) (rev [0..<width])"

definition year_text :: "bool \<Rightarrow> int \<Rightarrow> string" where
  "year_text pads y =
     (if pads \<or> 1000 \<le> y then zero_padded 4 y
      else if 100 \<le> y then zero_padded 3 y
      else if 10 \<le> y then zero_padded 2 y
      else zero_padded 1 y)"

definition strftime :: "bool \<Rightarrow> datetime \<Rightarrow> string" where
  "strftime pads dt =
     year_text pads (year dt) @ ''-'' @ zero_padded 2 (month dt) @ ''-'' @ zero_padded 2 (day dt)
       @ '' '' @ zero_padded 2 (hour dt) @ '':'' @ zero_padded 2 (minute dt)
       @ '':'' @ zero_padded 2 (second dt)"

subsection \<open>_decode_timestamp, _compare_timestamp_with_current, is_token_expired\<close>

text \<open>
  \<^verbatim>\<open>_decode_timestamp\<close> receives whatever \<^verbatim>\<open>jwt.get('exp')\<close> returned. \<^verbatim>\<open>utcfromtimestamp\<close> accepts
  an integer (a Python \<^verbatim>\<open>bool\<close> is one) and raises \<open>TypeError\<close> on \<^verbatim>\<open>None\<close>, a string, a list or
  a dictionary.
\<close>

definition decode_timestamp :: "bool \<Rightarrow> json_value \<Rightarrow> error + string" where
  "decode_timestamp pads timestamp =
     (case timestamp of
        JInt n \<Rightarrow> map_sum id (strftime pads) (utcfromtimestamp n)
      | JBool b \<Rightarrow> map_sum id (strftime pads) (utcfromtimestamp (if b then 1 else 0))
      | _ \<Rightarrow> Inl TypeError)"

text \<open>
  \<^verbatim>\<open>_compare_timestamp_with_current\<close>: \<open>now\<close> is the reading of the clock, in whole seconds
  since the epoch, that \<^verbatim>\<open>datetime.utcnow()\<close> returns. The function has two branches and no
  \<^verbatim>\<open>else\<close>; falling through both would return \<^verbatim>\<open>None\<close>, here \<open>Inr None\<close>.
\<close>

definition compare_timestamp_with_current ::
  "bool \<Rightarrow> int \<Rightarrow> json_value \<Rightarrow> error + bool option" where
  "compare_timestamp_with_current pads now timestamp =
     (case decode_timestamp pads timestamp of
        Inl e \<Rightarrow> Inl e
      | Inr decoded_time \<Rightarrow>
          (let current_time = strftime pads (gmtime now) in
           if decoded_time < current_time then Inr (Some True)
           else if decoded_time \<ge> current_time then Inr (Some False)
           else Inr None))"

text \<open>
  \<^verbatim>\<open>OAuthClient.decode_jwt\<close> and \<^verbatim>\<open>OAuthClient.is_token_expired\<close>. \<^verbatim>\<open>jwt.get('exp')\<close> raises
  \<open>AttributeError\<close> when the payload is not a dictionary and returns \<^verbatim>\<open>None\<close> (\<open>JNull\<close>) when
  the key is missing.
\<close>

definition decode_jwt :: "(string \<Rightarrow> json_value option) \<Rightarrow> string \<Rightarrow> error + json_value" where
  "decode_jwt loads token = utils_decode_jwt loads token"

definition dict_get :: "json_value \<Rightarrow> string \<Rightarrow> error + json_value" where
  "dict_get v k =
     (case v of
        JObject entries \<Rightarrow> (case map_of entries k of None \<Rightarrow> Inr JNull | Some x \<Rightarrow> Inr x)
      | _ \<Rightarrow> Inl AttributeError)"

definition is_token_expired ::
  "(string \<Rightarrow> json_value option) \<Rightarrow> bool \<Rightarrow> int \<Rightarrow> string option \<Rightarrow> error + bool option" where
  "is_token_expired loads pads now token =
     (case token of
        None \<Rightarrow> Inr None
      | Some t \<Rightarrow>
          (case utils_decode_jwt loads t of
             Inl e \<Rightarrow> Inl e
           | Inr jwt \<Rightarrow>
               (case dict_get jwt ''exp'' of
                  Inl e \<Rightarrow> Inl e
                | Inr jwt_exp \<Rightarrow> compare_timestamp_with_current pads now jwt_exp)))"

subsection \<open>Notions used in the proofs about datetime\<close>

text \<open>
  The order of two broken-down times: lexicographic on year, month, day, hour, minute and
  second.
\<close>

definition datetime_less :: "datetime \<Rightarrow> datetime \<Rightarrow> bool" where
  "datetime_less s t \<longleftrightarrow>
     year s < year t \<or> year s = year t \<and>
       (month s < month t \<or> month s = month t \<and>
         (day s < day t \<or> day s = day t \<and>
           (hour s < hour t \<or> hour s = hour t \<and>
             (minute s < minute t \<or> minute s = minute t \<and> second s < second t))))"

text \<open>
  The timestamps that \<^verbatim>\<open>utcfromtimestamp\<close> accepts and whose year \<^verbatim>\<open>strftime\<close> prints with four
  digits: from 0001-01-01 where the year is padded, from 1000-01-01 where it is not, to
  9999-12-31 23:59:59.
\<close>

definition representable :: "bool \<Rightarrow> int \<Rightarrow> bool" where
  "representable pads t \<longleftrightarrow>
     (if pads then - 62135596800 else - 30610224000) \<le> t \<and> t \<le> 253402300799"

text \<open>
  The number that a day would have in a calendar whose years all had 366 days: 366 times
  the years before it plus its day of the year. It is computed along the same divisions as
  \<open>ord2ymd\<close>, level by level, and it grows with the day.
\<close>

definition pseudo4 :: "int \<Rightarrow> int" where
  "pseudo4 r = (if r div 365 = 4 then 1463 else 366 * (r div 365) + r mod 365)"

definition pseudo100 :: "int \<Rightarrow> int" where
  "pseudo100 r = 1464 * (r div 1461) + pseudo4 (r mod 1461)"

definition pseudo400 :: "int \<Rightarrow> int" where
  "pseudo400 r =
     (if r div 36524 = 4 then 146399 else 36600 * (r div 36524) + pseudo100 (r mod 36524))"

definition pseudo_ordinal :: "int \<Rightarrow> int" where
  "pseudo_ordinal n = 146400 * (n div 146097) + pseudo400 (n mod 146097)"

subsection \<open>The encoding of a payload\<close>

text \<open>
  The source only decodes. The encoding that the round trip speaks of is base64url as a JWT
  uses it (RFC 4648, section 5): three bytes become four characters of the alphabet
  \<^verbatim>\<open>A-Z a-z 0-9 - _\<close>, with \<^verbatim>\<open>=\<close> padding at the end when \<open>pad\<close> is set and none otherwise.
  \<open>base64url_text\<close> says that a segment consists of characters of this alphabet and padding.
\<close>

definition b64url_char :: "nat \<Rightarrow> char" where
  "b64url_char i =
     (if i < 26 then char_of (65 + i)
      else if i < 52 then char_of (71 + i)
      else if i < 62 then char_of (i - 4)
      else if i = 62 then CHR ''-''
      else CHR ''_'')"

fun b64url_encode :: "bool \<Rightarrow> string \<Rightarrow> string" where
  "b64url_encode pad [] = []"
| "b64url_encode pad [x] =
     (let a = (of_char x :: nat) in
      [b64url_char (a div 4), b64url_char (a mod 4 * 16)] @ (if pad then ''=='' else []))"
| "b64url_encode pad [x, y] =
     (let a = (of_char x :: nat); b = (of_char y :: nat) in
      [b64url_char (a div 4), b64url_char (a mod 4 * 16 + b div 16), b64url_char (b mod 16 * 4)]
        @ (if pad then ''='' else []))"
| "b64url_encode pad (x # y # z # rest) =
     (let a = (of_char x :: nat); b = (of_char y :: nat); c = (of_char z :: nat) in
      [b64url_char (a div 4), b64url_char (a mod 4 * 16 + b div 16),
       b64url_char (b mod 16 * 4 + c div 64), b64url_char (c mod 64)]
        @ b64url_encode pad rest)"

definition base64url_text :: "string \<Rightarrow> bool" where
  "base64url_text s \<longleftrightarrow>
     list_all (\<lambda>c. c \<in> set ''ABCDEFGHIJKLMNOPQRSTUVWXYZabcdefghijklmnopqrstuvwxyz0123456789-_='') s"

section \<open>Concrete inputs\<close>

text \<open>A configuration, a client holding tokens, and networks that answer every request alike.\<close>

definition demo_config :: oauth_config where
  "demo_config =
     \<lparr>client_id = ''cid'', client_secret = ''secret'', redirect_uri = ''https://example.com/cb''\<rparr>"

definition demo_client :: oauth_client where
  "demo_client =
     \<lparr>config = demo_config, access_token = Some ''A0'', refresh_token = Some ''R0'',
      longlive_token = None, api_key = None, base_url = Some ''https://acme.amocrm.ru''\<rparr>"

definition answer_always :: "int \<Rightarrow> string \<Rightarrow> (string \<rightharpoonup> string) option \<Rightarrow> network" where
  "answer_always status txt js =
     (\<lambda>log req. Responds \<lparr>status_code = status, body_text = txt, body_json = js\<rparr>)"

definition fail_always :: "string \<Rightarrow> network" where
  "fail_always msg = (\<lambda>log req. Raises msg)"

text \<open>A network that gives the listed answers in turn, and an upload manager with parts of 3 bytes.\<close>

definition scripted :: "http_result list \<Rightarrow> network" where
  "scripted answers =
     (\<lambda>log req. if length log < length answers then answers ! length log
                 else Raises ''no answer'')"

definition answer_json :: "int \<Rightarrow> (string \<rightharpoonup> string) \<Rightarrow> http_result" where
  "answer_json status d =
     Responds \<lparr>status_code = status, body_text = ''ok'', body_json = Some d\<rparr>"

definition demo_manager :: file_upload_manager where
  "demo_manager = \<lparr>bearer_token = ''T'', max_part_size = 3\<rparr>"

definition default_manager :: file_upload_manager where
  "default_manager = \<lparr>bearer_token = ''T'', max_part_size = 131072\<rparr>"

text \<open>
  The exceptions that the package defines itself, as opposed to those of Python and of the
  \<^verbatim>\<open>requests\<close> library.
\<close>

definition package_error :: "error \<Rightarrow> bool" where
  "package_error e = (case e of OAuthError m \<Rightarrow> True | _ \<Rightarrow> False)"

text \<open>
  A stand-in for \<^verbatim>\<open>json.loads\<close> that knows three texts: the empty object, and the objects
  whose only entry is \<^verbatim>\<open>exp\<close> with the value 1700000000 (2023-11-14 22:13:20) and with the value
  253402300800 (the first second of the year 10000).
\<close>

definition demo_payload :: string where
  "demo_payload = ''{'' @ [CHR 0x22] @ ''exp'' @ [CHR 0x22] @ '':1700000000}''"

definition far_payload :: string where
  "far_payload = ''{'' @ [CHR 0x22] @ ''exp'' @ [CHR 0x22] @ '':253402300800}''"

definition demo_loads :: "string \<Rightarrow> json_value option" where
  "demo_loads s =
     (if s = ''{}'' then Some (JObject [])
      else if s = demo_payload then Some (JObject [(''exp'', JInt 1700000000)])
      else if s = far_payload then Some (JObject [(''exp'', JInt 253402300800)])
      else None)"

section \<open>Properties of OAuthClient\<close>

subsection \<open>get_authorization_url\<close>

text \<open>
  C1. With both \<open>state\<close> and \<open>mode\<close> supplied the URL should carry \<open>state\<close> and no \<open>mode\<close>
  parameter. The code filters only the \<open>None\<close> values, so with \<open>state = "x"\<close> and
  \<open>mode = "popup"\<close> the URL carries both parameters; with \<open>state\<close> alone it carries \<open>state\<close>
  and no \<open>mode\<close>.
\<close>

theorem get_authorization_url_state_and_mode:
  "get_authorization_url (init_client demo_config) (Some ''x'') (Some ''popup'')
     = ''https://www.amocrm.ru/oauth?client_id=cid&state=x&mode=popup''
   \<and> get_authorization_url (init_client demo_config) (Some ''x'') None
     = ''https://www.amocrm.ru/oauth?client_id=cid&state=x''"
  by (simp add: get_authorization_url_def init_client_def demo_config_def encode_params_def
      quote_plus_def quote_byte_def always_safe_def List.map_filter_def)

subsection \<open>refresh_access_token\<close>

text \<open>
  C2, as the code has it. When a non-empty refresh token is stored and the token endpoint
  answers with status 200 and a body that holds \<open>access_token\<close> and no \<open>refresh_token\<close>, the
  call returns the body, stores the new access token and sets the stored refresh token to
  \<open>None\<close>; no other field changes and exactly one request is made.
\<close>

theorem refresh_access_token_omitted_refresh_token:
  assumes "refresh_token c = Some rt" and "rt \<noteq> []"
    and "req = \<lparr>http_method = ''POST'', url = format_opt (base_url c) @ ''/oauth2/access_token'',
                headers = [],
                body = JsonBody [(''client_id'', client_id (config c)),
                                 (''client_secret'', client_secret (config c)),
                                 (''grant_type'', ''refresh_token''),
                                 (''refresh_token'', rt)]\<rparr>"
    and "net log req = Responds r" and "status_code r = 200"
    and "body_json r = Some d" and "d ''access_token'' = Some a" and "d ''refresh_token'' = None"
  shows "refresh_access_token net log c
           = (Inr d, c\<lparr>access_token := Some a, refresh_token := None\<rparr>, log @ [req])"
  using assms
  by (simp add: refresh_access_token_def store_tokens_def make_post_request_def
      make_request_def send_request_def Let_def)

theorem refresh_access_token_omitted_refresh_token_witness:
  "refresh_access_token (answer_always 200 ''ok'' (Some [''access_token'' \<mapsto> ''A1''])) [] demo_client
     = (Inr [''access_token'' \<mapsto> ''A1''],
        demo_client\<lparr>access_token := Some ''A1'', refresh_token := None\<rparr>,
        [\<lparr>http_method = ''POST'', url = ''https://acme.amocrm.ru/oauth2/access_token'',
          headers = [],
          body = JsonBody [(''client_id'', ''cid''), (''client_secret'', ''secret''),
                           (''grant_type'', ''refresh_token''), (''refresh_token'', ''R0'')]\<rparr>])"
  using refresh_access_token_omitted_refresh_token
    [of demo_client "''R0''" _ "answer_always 200 ''ok'' (Some [''access_token'' \<mapsto> ''A1''])" "[]"
        "\<lparr>status_code = 200, body_text = ''ok'', body_json = Some [''access_token'' \<mapsto> ''A1'']\<rparr>"
        "[''access_token'' \<mapsto> ''A1'']" "''A1''", OF _ _ refl]
  by (simp add: demo_client_def demo_config_def answer_always_def format_opt_def)

text \<open>
  The claim as the spec states it fails: after a status-200 answer without \<open>refresh_token\<close>
  the stored refresh token is \<open>None\<close>, not its old value; and a 2xx answer other than 200
  (here 201) raises \<open>OAuthError\<close> and leaves the access token as it was.
\<close>

theorem refresh_access_token_keeps_refresh_token_counterexample:
  "refresh_token demo_client = Some ''R0''
   \<and> refresh_token (fst (snd (refresh_access_token
        (answer_always 200 ''ok'' (Some [''access_token'' \<mapsto> ''A1''])) [] demo_client))) = None
   \<and> fst (refresh_access_token
        (answer_always 201 ''ok'' (Some [''access_token'' \<mapsto> ''A1''])) [] demo_client)
       = Inl (OAuthError ''Failed to post to https://acme.amocrm.ru/oauth2/access_token: ok'')
   \<and> access_token (fst (snd (refresh_access_token
        (answer_always 201 ''ok'' (Some [''access_token'' \<mapsto> ''A1''])) [] demo_client))) = Some ''A0''"
  by (simp add: refresh_access_token_def store_tokens_def make_post_request_def
      make_request_def send_request_def Let_def demo_client_def demo_config_def
      answer_always_def format_opt_def)

text \<open>
  C4. When no refresh token is stored, \<open>refresh_access_token\<close> raises
  \<open>OAuthError("No refresh token available")\<close>, the package's error for this case, makes no
  request (the list of requests is returned as it was) and leaves the client unchanged.
\<close>

theorem refresh_access_token_without_refresh_token:
  "refresh_token c = None \<Longrightarrow>
   refresh_access_token net log c = (Inl (OAuthError ''No refresh token available''), c, log)"
  by (simp add: refresh_access_token_def)

theorem refresh_access_token_without_refresh_token_witness:
  "refresh_token (init_client demo_config) = None
   \<and> refresh_access_token (fail_always ''unreachable'') [] (init_client demo_config)
       = (Inl (OAuthError ''No refresh token available''), init_client demo_config, [])"
  using refresh_access_token_without_refresh_token
    [of "init_client demo_config" "fail_always ''unreachable''" "[]"]
  by (simp add: init_client_def)

subsection \<open>get_access_token\<close>

text \<open>
  C3, as the code has it. When the token request meets a transport failure or an answer
  whose status is not 2xx, \<open>get_access_token\<close> raises \<open>OAuthError\<close>; the access token, the
  refresh token and the long-lived token keep their values, and \<open>base_url\<close> is the URL of the
  given subdomain, which the function stores before it sends the request.
\<close>

theorem get_access_token_failure:
  assumes "req = \<lparr>http_method = ''POST'',
                  url = ''https://'' @ subdomain @ ''.amocrm.ru/oauth2/access_token'',
                  headers = [],
                  body = JsonBody [(''client_id'', client_id (config c)),
                                   (''client_secret'', client_secret (config c)),
                                   (''redirect_uri'', redirect_uri (config c)),
                                   (''code'', code),
                                   (''grant_type'', ''authorization_code'')]\<rparr>"
    and "(\<exists>msg. net log req = Raises msg)
         \<or> (\<exists>r. net log req = Responds r \<and> (status_code r < 200 \<or> 300 \<le> status_code r))"
  shows "\<exists>m. get_access_token net log c code subdomain
           = (Inl (OAuthError m),
              c\<lparr>base_url := Some (''https://'' @ subdomain @ ''.amocrm.ru'')\<rparr>,
              log @ [req])"
  using assms
  by (auto simp add: get_access_token_def store_tokens_def make_post_request_def
      make_request_def send_request_def format_opt_def Let_def)

theorem get_access_token_failure_witness:
  "\<exists>m. get_access_token (answer_always 400 ''bad request'' None) [] demo_client ''code1'' ''other''
     = (Inl (OAuthError m),
        demo_client\<lparr>base_url := Some ''https://other.amocrm.ru''\<rparr>,
        [\<lparr>http_method = ''POST'', url = ''https://other.amocrm.ru/oauth2/access_token'',
          headers = [],
          body = JsonBody [(''client_id'', ''cid''), (''client_secret'', ''secret''),
                           (''redirect_uri'', ''https://example.com/cb''),
                           (''code'', ''code1''), (''grant_type'', ''authorization_code'')]\<rparr>])"
  using get_access_token_failure
    [of _ "''other''" demo_client "''code1''" "answer_always 400 ''bad request'' None" "[]", OF refl]
  by (simp add: demo_client_def demo_config_def answer_always_def)

text \<open>
  The claim as the spec states it fails on \<open>base_url\<close>: a failed exchange for the subdomain
  \<open>other\<close> leaves the client with the base URL of \<open>other\<close>, not with the one it had.
\<close>

theorem get_access_token_base_url_counterexample:
  "base_url demo_client = Some ''https://acme.amocrm.ru''
   \<and> fst (get_access_token (answer_always 400 ''bad request'' None) [] demo_client ''code1'' ''other'')
       = Inl (OAuthError ''Failed to post to https://other.amocrm.ru/oauth2/access_token: bad request'')
   \<and> base_url (fst (snd (get_access_token (answer_always 400 ''bad request'' None) []
        demo_client ''code1'' ''other''))) = Some ''https://other.amocrm.ru''"
  by (simp add: get_access_token_def store_tokens_def make_post_request_def
      make_request_def send_request_def format_opt_def Let_def demo_client_def
      demo_config_def answer_always_def)

section \<open>Properties of FileUploadManager\<close>

lemma read_parts_three:
  assumes "length data = 300000"
  shows "read_parts 131072 data
           = [take 131072 data, take 131072 (drop 131072 data), drop 262144 data]"
proof -
  have ne1: "data \<noteq> []" using assms by auto
  have step1: "read_parts 131072 data = take 131072 data # read_parts 131072 (drop 131072 data)"
    using ne1 by (subst read_parts.simps) simp
  have ne2: "drop 131072 data \<noteq> []" using assms by auto
  have step2: "read_parts 131072 (drop 131072 data)
                = take 131072 (drop 131072 data) # read_parts 131072 (drop 262144 data)"
    using ne2 by (subst read_parts.simps) simp
  have ne3: "drop 262144 data \<noteq> []" using assms by auto
  have rest: "drop 131072 (drop 262144 data) = []" using assms by simp
  have last_part: "take 131072 (drop 262144 data) = drop 262144 data" using assms by simp
  have step3: "read_parts 131072 (drop 262144 data) = [drop 262144 data]"
    using ne3 rest last_part by (subst read_parts.simps, subst read_parts.simps) simp
  show ?thesis using step1 step2 step3 by simp
qed

text \<open>
  C8. For a file of 300000 bytes and \<open>max_part_size = 131072\<close>, when the session request and
  the chunk requests succeed, the first two chunk answers carry a \<open>next_url\<close> and the third
  does not, \<open>upload_file\<close> makes exactly four requests: the session request, then the chunks
  of 131072, 131072 and 37856 bytes in file order, the first to the session's \<open>upload_url\<close>
  and each later one to the \<open>next_url\<close> of the answer before it; nothing follows the third
  chunk.
\<close>

theorem upload_file_three_chunks:
  assumes stored: "fs file_path = Some data" and len: "length data = 300000"
    and size: "max_part_size m = 131072"
    and r0: "r0 = session_request m file_name 300000"
    and a0: "net log r0 = Responds a0" "raise_for_status a0 = None" "body_json a0 = Some d0"
            "d0 ''upload_url'' = Some u0"
    and r1: "r1 = chunk_request m u0 (take 131072 data)"
    and a1: "net (log @ [r0]) r1 = Responds a1" "raise_for_status a1 = None"
            "body_json a1 = Some d1" "d1 ''next_url'' = Some u1"
    and r2: "r2 = chunk_request m u1 (take 131072 (drop 131072 data))"
    and a2: "net (log @ [r0, r1]) r2 = Responds a2" "raise_for_status a2 = None"
            "body_json a2 = Some d2" "d2 ''next_url'' = Some u2"
    and r3: "r3 = chunk_request m u2 (drop 262144 data)"
    and a3: "net (log @ [r0, r1, r2]) r3 = Responds a3" "raise_for_status a3 = None"
            "body_json a3 = Some d3" "d3 ''next_url'' = None"
  shows "upload_file m net fs log file_path file_name = (Inr (), log @ [r0, r1, r2, r3])
         \<and> length (take 131072 data) = 131072
         \<and> length (take 131072 (drop 131072 data)) = 131072
         \<and> length (drop 262144 data) = 37856"
proof -
  have session: "create_session m net log file_name (int (length data)) = (Inr u0, log @ [r0])"
    using a0 r0 len by (simp add: create_session_def requests_post_def)
  have chunk1: "upload_chunk m net (log @ [r0]) (take 131072 data) (Some u0)
                 = (Inr (Some u1), log @ [r0, r1])"
    using a1 r1 by (simp add: upload_chunk_def requests_post_def)
  have chunk2: "upload_chunk m net (log @ [r0, r1]) (take 131072 (drop 131072 data)) (Some u1)
                 = (Inr (Some u2), log @ [r0, r1, r2])"
    using a2 r2 by (simp add: upload_chunk_def requests_post_def)
  have chunk3: "upload_chunk m net (log @ [r0, r1, r2]) (drop 262144 data) (Some u2)
                 = (Inr None, log @ [r0, r1, r2, r3])"
    using a3 r3 by (simp add: upload_chunk_def requests_post_def)
  have "upload_file m net fs log file_path file_name = (Inr (), log @ [r0, r1, r2, r3])"
    using stored session chunk1 chunk2 chunk3 read_parts_three [OF len]
    by (simp add: upload_file_def upload_file_in_parts_def size)
  then show ?thesis using len by simp
qed

theorem upload_file_three_chunks_witness:
  "upload_file default_manager
     (scripted [answer_json 200 [''upload_url'' \<mapsto> ''u0''],
                answer_json 200 [''next_url'' \<mapsto> ''u1''],
                answer_json 200 [''next_url'' \<mapsto> ''u2''],
                answer_json 200 Map.empty])
     [''cat.jpeg'' \<mapsto> replicate 300000 (CHR ''a'')] [] ''cat.jpeg'' ''cat.jpeg''
   = (Inr (), [session_request default_manager ''cat.jpeg'' 300000,
               chunk_request default_manager ''u0'' (replicate 131072 (CHR ''a'')),
               chunk_request default_manager ''u1'' (replicate 131072 (CHR ''a'')),
               chunk_request default_manager ''u2'' (replicate 37856 (CHR ''a''))])"
  using upload_file_three_chunks
    [of "[''cat.jpeg'' \<mapsto> replicate 300000 (CHR ''a'')]" "''cat.jpeg''"
        "replicate 300000 (CHR ''a'')" default_manager _ "''cat.jpeg''"
        "scripted [answer_json 200 [''upload_url'' \<mapsto> ''u0''],
                   answer_json 200 [''next_url'' \<mapsto> ''u1''],
                   answer_json 200 [''next_url'' \<mapsto> ''u2''],
                   answer_json 200 Map.empty]" "[]"
        "\<lparr>status_code = 200, body_text = ''ok'', body_json = Some [''upload_url'' \<mapsto> ''u0'']\<rparr>"
        "[''upload_url'' \<mapsto> ''u0'']" "''u0''" _
        "\<lparr>status_code = 200, body_text = ''ok'', body_json = Some [''next_url'' \<mapsto> ''u1'']\<rparr>"
        "[''next_url'' \<mapsto> ''u1'']" "''u1''" _
        "\<lparr>status_code = 200, body_text = ''ok'', body_json = Some [''next_url'' \<mapsto> ''u2'']\<rparr>"
        "[''next_url'' \<mapsto> ''u2'']" "''u2''" _
        "\<lparr>status_code = 200, body_text = ''ok'', body_json = Some Map.empty\<rparr>" "Map.empty",
     OF _ _ _ refl _ _ _ _ refl _ _ _ _ refl _ _ _ _ refl]
  by (simp add: default_manager_def scripted_def answer_json_def raise_for_status_def)

text \<open>
  C9, as the code has it. For a file of at least three parts, when the session and the
  first chunk succeed and the request for the second chunk fails (a transport failure, or
  an answer with a status from 400 to 599), \<open>upload_file\<close> stops after that request: no
  third chunk is sent. What the caller receives is the exception of the \<^verbatim>\<open>requests\<close>
  library itself (\<open>RequestException\<close> or \<open>HTTPError\<close>), not an error of the package.
\<close>

theorem upload_file_second_chunk_fails:
  assumes stored: "fs file_path = Some data"
    and parts: "read_parts (max_part_size m) data = p1 # p2 # p3 # rest"
    and r0: "r0 = session_request m file_name (int (length data))"
    and a0: "net log r0 = Responds a0" "raise_for_status a0 = None" "body_json a0 = Some d0"
            "d0 ''upload_url'' = Some u0"
    and r1: "r1 = chunk_request m u0 p1"
    and a1: "net (log @ [r0]) r1 = Responds a1" "raise_for_status a1 = None"
            "body_json a1 = Some d1" "d1 ''next_url'' = Some u1"
    and r2: "r2 = chunk_request m u1 p2"
    and a2: "(net (log @ [r0, r1]) r2 = Raises msg \<and> e = RequestException msg)
             \<or> (\<exists>a2. net (log @ [r0, r1]) r2 = Responds a2 \<and> 400 \<le> status_code a2
                      \<and> status_code a2 < 600 \<and> e = HTTPError (status_code a2))"
  shows "upload_file m net fs log file_path file_name = (Inl e, log @ [r0, r1, r2])
         \<and> \<not> package_error e"
proof -
  have session: "create_session m net log file_name (int (length data)) = (Inr u0, log @ [r0])"
    using a0 r0 by (simp add: create_session_def requests_post_def)
  have chunk1: "upload_chunk m net (log @ [r0]) p1 (Some u0) = (Inr (Some u1), log @ [r0, r1])"
    using a1 r1 by (simp add: upload_chunk_def requests_post_def)
  have chunk2: "upload_chunk m net (log @ [r0, r1]) p2 (Some u1) = (Inl e, log @ [r0, r1, r2])"
    using a2 r2 by (auto simp add: upload_chunk_def requests_post_def raise_for_status_def)
  have kind: "\<not> package_error e"
    using a2 by (auto simp add: package_error_def)
  have "upload_file m net fs log file_path file_name = (Inl e, log @ [r0, r1, r2])"
    using stored session chunk1 chunk2 parts
    by (simp add: upload_file_def upload_file_in_parts_def)
  then show ?thesis using kind by simp
qed

theorem upload_file_second_chunk_fails_witness:
  "upload_file demo_manager
     (scripted [answer_json 200 [''upload_url'' \<mapsto> ''u0''],
                answer_json 200 [''next_url'' \<mapsto> ''u1''],
                Raises ''connection reset''])
     [''cat.jpeg'' \<mapsto> ''abcdefg''] [] ''cat.jpeg'' ''cat.jpeg''
   = (Inl (RequestException ''connection reset''),
      [session_request demo_manager ''cat.jpeg'' 7,
       chunk_request demo_manager ''u0'' ''abc'',
       chunk_request demo_manager ''u1'' ''def''])"
  using upload_file_second_chunk_fails
    [of "[''cat.jpeg'' \<mapsto> ''abcdefg'']" "''cat.jpeg''" "''abcdefg''" demo_manager
        "''abc''" "''def''" "''g''" "[]" _ "''cat.jpeg''"
        "scripted [answer_json 200 [''upload_url'' \<mapsto> ''u0''],
                   answer_json 200 [''next_url'' \<mapsto> ''u1''],
                   Raises ''connection reset'']" "[]"
        "\<lparr>status_code = 200, body_text = ''ok'', body_json = Some [''upload_url'' \<mapsto> ''u0'']\<rparr>"
        "[''upload_url'' \<mapsto> ''u0'']" "''u0''" _
        "\<lparr>status_code = 200, body_text = ''ok'', body_json = Some [''next_url'' \<mapsto> ''u1'']\<rparr>"
        "[''next_url'' \<mapsto> ''u1'']" "''u1''" _
        "''connection reset''" "RequestException ''connection reset''",
     OF _ _ refl _ _ _ _ refl _ _ _ _ refl]
  by (simp add: read_parts.simps demo_manager_def scripted_def answer_json_def
      raise_for_status_def)

text \<open>
  The claim as the spec states it fails on the kind of the error: a status-500 answer to the
  second chunk reaches the caller as the \<open>HTTPError\<close> that \<^verbatim>\<open>raise_for_status\<close> raised, which
  is not an error of the package. The third part \<open>g\<close> is not sent.
\<close>

theorem upload_file_error_kind_counterexample:
  "upload_file demo_manager
     (scripted [answer_json 200 [''upload_url'' \<mapsto> ''u0''],
                answer_json 200 [''next_url'' \<mapsto> ''u1''],
                answer_json 500 Map.empty])
     [''cat.jpeg'' \<mapsto> ''abcdefg''] [] ''cat.jpeg'' ''cat.jpeg''
   = (Inl (HTTPError 500),
      [session_request demo_manager ''cat.jpeg'' 7,
       chunk_request demo_manager ''u0'' ''abc'',
       chunk_request demo_manager ''u1'' ''def''])
   \<and> \<not> package_error (HTTPError 500)"
  by (simp add: upload_file_def upload_file_in_parts_def read_parts.simps demo_manager_def
      create_session_def upload_chunk_def requests_post_def raise_for_status_def
      scripted_def answer_json_def package_error_def)

section \<open>Properties of the JWT functions\<close>

subsection \<open>Decoding inverts the encoding\<close>

text \<open>
  Each character of the encoding has the value it was made from; the loop therefore turns
  each group of four characters back into the three bytes, and the two padding characters
  that \<^verbatim>\<open>_decode_jwt\<close> appends end the input whatever the length of the payload was.
\<close>

lemma of_char_lt: "(of_char (c::char) :: nat) < 256"
  by (metis of_char_mod_256 mod_less_divisor zero_less_numeral)

lemma char_of_is: "n < 256 \<Longrightarrow> char_of n = c \<longleftrightarrow> n = (of_char c :: nat)"
  by auto

lemma b64_value_char:
  assumes "i < 64"
  shows "b64_value (urlsafe_translate (b64url_char i)) = Some i"
    and "urlsafe_translate (b64url_char i) \<noteq> CHR ''=''"
    and "(of_char (b64url_char i) :: nat) < 128"
    and "b64url_char i \<noteq> CHR ''.''"
proof -
  consider "i < 26" | "26 \<le> i" "i < 52" | "52 \<le> i" "i < 62" | "i = 62" | "i = 63"
    using assms by linarith
  then have "b64_value (urlsafe_translate (b64url_char i)) = Some i
      \<and> urlsafe_translate (b64url_char i) \<noteq> CHR ''=''
      \<and> (of_char (b64url_char i) :: nat) < 128 \<and> b64url_char i \<noteq> CHR ''.''"
  proof cases
    case 1
    then show ?thesis
      by (simp add: b64url_char_def urlsafe_translate_def b64_value_def Let_def char_of_is)
  next
    case 2
    then show ?thesis
      by (simp add: b64url_char_def urlsafe_translate_def b64_value_def Let_def char_of_is)
  next
    case 3
    then show ?thesis
      by (auto simp add: b64url_char_def urlsafe_translate_def b64_value_def Let_def char_of_is)
  next
    case 4
    then show ?thesis
      by (simp add: b64url_char_def urlsafe_translate_def b64_value_def)
  next
    case 5
    then show ?thesis
      by (simp add: b64url_char_def urlsafe_translate_def b64_value_def)
  qed
  then show "b64_value (urlsafe_translate (b64url_char i)) = Some i"
    and "urlsafe_translate (b64url_char i) \<noteq> CHR ''=''"
    and "(of_char (b64url_char i) :: nat) < 128"
    and "b64url_char i \<noteq> CHR ''.''" by simp_all
qed




lemma a2b_step0:
  "i < 64 \<Longrightarrow> a2b_base64 (urlsafe_translate (b64url_char i) # cs) 0 l p out
       = a2b_base64 cs (Suc 0) i 0 out"
  using b64_value_char(1,2) [of i] by simp

lemma a2b_step1:
  "i < 64 \<Longrightarrow> a2b_base64 (urlsafe_translate (b64url_char i) # cs) (Suc 0) l p out
       = a2b_base64 cs 2 (i mod 16) 0 (out @ [char_of (l * 4 + i div 16)])"
  using b64_value_char(1,2) [of i] by simp

lemma a2b_step2:
  "i < 64 \<Longrightarrow> a2b_base64 (urlsafe_translate (b64url_char i) # cs) 2 l p out
       = a2b_base64 cs 3 (i mod 4) 0 (out @ [char_of (l * 16 + i div 4)])"
  using b64_value_char(1,2) [of i] by simp

lemma a2b_step3:
  "i < 64 \<Longrightarrow> a2b_base64 (urlsafe_translate (b64url_char i) # cs) 3 l p out
       = a2b_base64 cs 0 0 0 (out @ [char_of (l * 64 + i)])"
  using b64_value_char(1,2) [of i] by simp

lemma a2b_padding:
  "a2b_base64 (CHR ''='' # cs) quad_pos l p out =
     (if 2 \<le> quad_pos \<and> 4 \<le> quad_pos + (p + 1) then Inr out
      else a2b_base64 cs quad_pos l (if 2 \<le> quad_pos then p + 1 else p) out)"
  by simp

lemma a2b_end: "a2b_base64 [] 0 l p out = Inr out"
  by simp

declare a2b_base64.simps [simp del]

lemma split_digits: "(q::nat) < k \<Longrightarrow> (r * k + q) div k = r \<and> (r * k + q) mod k = q"
  by simp

lemma translate_pad: "urlsafe_translate CHR ''='' = CHR ''=''"
  by (simp add: urlsafe_translate_def)

lemma a2b_group:
  assumes la: "a < 256" and lb: "b < 256" and lc: "(c::nat) < 256"
  shows "a2b_base64 (map urlsafe_translate
            [b64url_char (a div 4), b64url_char (a mod 4 * 16 + b div 16),
             b64url_char (b mod 16 * 4 + c div 64), b64url_char (c mod 64)] @ rest) 0 l p out
         = a2b_base64 rest 0 0 0 (out @ [char_of a, char_of b, char_of c])"
proof -
  have q1: "b div 16 < 16" using lb by arith
  have q2: "c div 64 < 4" using lc by arith
  have i1: "a div 4 < 64" using la by arith
  have i2: "a mod 4 * 16 + b div 16 < 64" using lb by arith
  have i3: "b mod 16 * 4 + c div 64 < 64" using lc by arith
  have i4: "c mod 64 < 64" by simp
  have o1: "a div 4 * 4 + (a mod 4 * 16 + b div 16) div 16 = a"
    using split_digits [OF q1, of "a mod 4"] by simp
  have o2: "(a mod 4 * 16 + b div 16) mod 16 * 16 + (b mod 16 * 4 + c div 64) div 4 = b"
    using split_digits [OF q1, of "a mod 4"] split_digits [OF q2, of "b mod 16"] by simp
  have o3: "(b mod 16 * 4 + c div 64) mod 4 * 64 + c mod 64 = c"
    using split_digits [OF q2, of "b mod 16"] by simp
  show ?thesis
    by (simp only: list.map append.simps append_assoc a2b_step0 [OF i1] a2b_step1 [OF i2]
        a2b_step2 [OF i3] a2b_step3 [OF i4] o1 o2 o3)
qed

lemma a2b_encode:
  "a2b_base64 (map urlsafe_translate (b64url_encode pad bs @ ''=='')) 0 l p out = Inr (out @ bs)"
proof (induction pad bs arbitrary: l p out rule: b64url_encode.induct)
  case (1 pad)
  show ?case by (simp add: translate_pad a2b_padding a2b_end)
next
  case (2 pad x)
  define a where "a = (of_char x :: nat)"
  have i1: "a div 4 < 64" unfolding a_def using of_char_lt [of x] by arith
  have i2: "a mod 4 * 16 < 64" by arith
  have o1: "a div 4 * 4 + (a mod 4 * 16) div 16 = a" by simp
  have "b64url_encode pad [x] @ ''==''
          = [b64url_char (a div 4), b64url_char (a mod 4 * 16)]
              @ ((if pad then ''=='' else []) @ ''=='')"
    by (simp add: a_def Let_def)
  then have "a2b_base64 (map urlsafe_translate (b64url_encode pad [x] @ ''=='')) 0 l p out
        = a2b_base64 (map urlsafe_translate ((if pad then ''=='' else []) @ ''==''))
            2 ((a mod 4 * 16) mod 16) 0 (out @ [char_of a])"
    by (simp only: list.map map_append append.simps append_assoc a2b_step0 [OF i1]
        a2b_step1 [OF i2] o1)
  also have "\<dots> = Inr (out @ [x])"
    by (simp add: translate_pad a2b_padding a_def)
  finally show ?case .
next
  case (3 pad x y)
  define a where "a = (of_char x :: nat)"
  define b where "b = (of_char y :: nat)"
  have lb: "b < 256" unfolding b_def by simp
  have q1: "b div 16 < 16" using lb by arith
  have i1: "a div 4 < 64" unfolding a_def using of_char_lt [of x] by arith
  have i2: "a mod 4 * 16 + b div 16 < 64" using lb by arith
  have i3: "b mod 16 * 4 < 64" by arith
  have o1: "a div 4 * 4 + (a mod 4 * 16 + b div 16) div 16 = a"
    using split_digits [OF q1, of "a mod 4"] by simp
  have o2: "(a mod 4 * 16 + b div 16) mod 16 * 16 + (b mod 16 * 4) div 4 = b"
    using split_digits [OF q1, of "a mod 4"] by simp
  have "b64url_encode pad [x, y] @ ''==''
          = [b64url_char (a div 4), b64url_char (a mod 4 * 16 + b div 16),
             b64url_char (b mod 16 * 4)] @ ((if pad then ''='' else []) @ ''=='')"
    by (simp add: a_def b_def Let_def)
  then have "a2b_base64 (map urlsafe_translate (b64url_encode pad [x, y] @ ''=='')) 0 l p out
        = a2b_base64 (map urlsafe_translate ((if pad then ''='' else []) @ ''==''))
            3 ((b mod 16 * 4) mod 4) 0 (out @ [char_of a, char_of b])"
    by (simp only: list.map map_append append.simps append_assoc a2b_step0 [OF i1]
        a2b_step1 [OF i2] a2b_step2 [OF i3] o1 o2)
  also have "\<dots> = Inr (out @ [x, y])"
    by (simp add: translate_pad a2b_padding a_def b_def)
  finally show ?case .
next
  case (4 pad x y z rest)
  define a where "a = (of_char x :: nat)"
  define b where "b = (of_char y :: nat)"
  define c where "c = (of_char z :: nat)"
  have bounds: "a < 256" "b < 256" "c < 256" by (simp_all add: a_def b_def c_def)
  have "a2b_base64 (map urlsafe_translate (b64url_encode pad (x # y # z # rest) @ ''=='')) 0 l p out
        = a2b_base64 (map urlsafe_translate
            [b64url_char (a div 4), b64url_char (a mod 4 * 16 + b div 16),
             b64url_char (b mod 16 * 4 + c div 64), b64url_char (c mod 64)]
            @ map urlsafe_translate (b64url_encode pad rest @ ''=='')) 0 l p out"
    by (simp add: a_def b_def c_def Let_def)
  also have "\<dots> = a2b_base64 (map urlsafe_translate (b64url_encode pad rest @ ''==''))
            0 0 0 (out @ [char_of a, char_of b, char_of c])"
    using bounds by (rule a2b_group)
  also have "\<dots> = Inr ((out @ [char_of a, char_of b, char_of c]) @ rest)"
    by (rule "4.IH" [OF refl refl refl])
  finally show ?case by (simp add: a_def b_def c_def)
qed

lemma b64url_encode_chars:
  "c \<in> set (b64url_encode pad bs) \<Longrightarrow> (of_char c :: nat) < 128 \<and> c \<noteq> CHR ''.''"
proof (induction pad bs rule: b64url_encode.induct)
  case (1 pad)
  then show ?case by simp
next
  case (2 pad x)
  have i1: "(of_char x :: nat) div 4 < 64" using of_char_lt [of x] by arith
  have i2: "(of_char x :: nat) mod 4 * 16 < 64" by arith
  from 2 show ?case
    using b64_value_char(3,4) [OF i1] b64_value_char(3,4) [OF i2]
    by (auto simp add: Let_def split: if_splits)
next
  case (3 pad x y)
  have lb: "(of_char y :: nat) < 256" by simp
  have i1: "(of_char x :: nat) div 4 < 64" using of_char_lt [of x] by arith
  have i2: "(of_char x :: nat) mod 4 * 16 + (of_char y :: nat) div 16 < 64" using lb by arith
  have i3: "(of_char y :: nat) mod 16 * 4 < 64" by arith
  from 3 show ?case
    using b64_value_char(3,4) [OF i1] b64_value_char(3,4) [OF i2] b64_value_char(3,4) [OF i3]
    by (auto simp add: Let_def split: if_splits)
next
  case (4 pad x y z rest)
  have lb: "(of_char y :: nat) < 256" and lc: "(of_char z :: nat) < 256" by simp_all
  have i1: "(of_char x :: nat) div 4 < 64" using of_char_lt [of x] by arith
  have i2: "(of_char x :: nat) mod 4 * 16 + (of_char y :: nat) div 16 < 64" using lb by arith
  have i3: "(of_char y :: nat) mod 16 * 4 + (of_char z :: nat) div 64 < 64" using lc by arith
  have i4: "(of_char z :: nat) mod 64 < 64" by simp
  from 4 show ?case
    using b64_value_char(3,4) [OF i1] b64_value_char(3,4) [OF i2] b64_value_char(3,4) [OF i3]
      b64_value_char(3,4) [OF i4]
    by (auto simp add: Let_def)
qed

lemma urlsafe_b64decode_encode:
  "urlsafe_b64decode (b64url_encode pad bs @ ''=='') = Inr bs"
proof -
  have "\<not> (\<exists>c \<in> set (b64url_encode pad bs @ ''==''). 128 \<le> (of_char c :: nat))"
    using b64url_encode_chars [of _ pad bs] by (auto simp add: not_le)
  then show ?thesis
    using a2b_encode [of pad bs 0 0 "[]"] by (simp add: urlsafe_b64decode_def)
qed

lemma split_on_no_sep: "sep \<notin> set s \<Longrightarrow> split_on sep s = [s]"
  by (induction s) auto

lemma split_on_append: "sep \<notin> set s \<Longrightarrow> split_on sep (s @ sep # rest) = s # split_on sep rest"
  by (induction s) auto

lemma decode_jwt_encoded:
  assumes "CHR ''.'' \<notin> set header_b64" and "CHR ''.'' \<notin> set signature_b64"
    and "utf8_valid payload" and "loads payload = Some claims"
  shows "decode_jwt loads (header_b64 @ ''.'' @ b64url_encode pad payload @ ''.'' @ signature_b64)
           = Inr claims"
proof -
  have nodot: "CHR ''.'' \<notin> set (b64url_encode pad payload)"
    using b64url_encode_chars [of "CHR ''.''" pad payload] by auto
  have "split_on CHR ''.'' (header_b64 @ ''.'' @ b64url_encode pad payload @ ''.'' @ signature_b64)
          = [header_b64, b64url_encode pad payload, signature_b64]"
    using assms(1,2) nodot by (simp add: split_on_append split_on_no_sep)
  then show ?thesis
    using assms(3,4) by (simp add: decode_jwt_def utils_decode_jwt_def urlsafe_b64decode_encode)
qed

text \<open>
  C7, as the code has it. For a token of three segments whose middle segment is the
  base64url encoding (padded or not) of a UTF-8 text that \<^verbatim>\<open>json.loads\<close> reads as \<open>claims\<close>,
  \<open>decode_jwt\<close> returns exactly \<open>claims\<close>. It raises \<open>ValueError\<close> when the token does not
  have exactly three segments, when the decoding of the middle segment raises, and when the
  decoded bytes are not UTF-8 or not JSON. The decoding itself is lenient: it skips the
  characters that are not in the alphabet instead of rejecting the segment.
\<close>

theorem decode_jwt_round_trip:
  "(CHR ''.'' \<notin> set header_b64 \<and> CHR ''.'' \<notin> set signature_b64 \<and> utf8_valid payload
      \<and> loads payload = Some claims
     \<longrightarrow> decode_jwt loads (header_b64 @ ''.'' @ b64url_encode pad payload @ ''.'' @ signature_b64)
           = Inr claims)
   \<and> (length (split_on CHR ''.'' token) \<noteq> 3 \<longrightarrow> decode_jwt loads token = Inl ValueError)
   \<and> (split_on CHR ''.'' token = [h, p, s]
        \<and> (urlsafe_b64decode (p @ ''=='') = Inl e
            \<or> urlsafe_b64decode (p @ ''=='') = Inr decoded
               \<and> (\<not> utf8_valid decoded \<or> loads decoded = None))
     \<longrightarrow> decode_jwt loads token = Inl ValueError)"
proof (intro conjI impI)
  assume "CHR ''.'' \<notin> set header_b64 \<and> CHR ''.'' \<notin> set signature_b64 \<and> utf8_valid payload
      \<and> loads payload = Some claims"
  then show "decode_jwt loads (header_b64 @ ''.'' @ b64url_encode pad payload @ ''.'' @ signature_b64)
           = Inr claims"
    using decode_jwt_encoded by blast
next
  assume "length (split_on CHR ''.'' token) \<noteq> 3"
  then show "decode_jwt loads token = Inl ValueError"
    by (auto simp add: decode_jwt_def utils_decode_jwt_def split: list.splits)
next
  assume "split_on CHR ''.'' token = [h, p, s]
        \<and> (urlsafe_b64decode (p @ ''=='') = Inl e
            \<or> urlsafe_b64decode (p @ ''=='') = Inr decoded
               \<and> (\<not> utf8_valid decoded \<or> loads decoded = None))"
  then show "decode_jwt loads token = Inl ValueError"
    by (auto simp add: decode_jwt_def utils_decode_jwt_def)
qed

theorem decode_jwt_round_trip_witness:
  "decode_jwt demo_loads
     (''eyJhbGciOiJub25lIn0'' @ ''.'' @ b64url_encode False demo_payload @ ''.'' @ ''sig'')
     = Inr (JObject [(''exp'', JInt 1700000000)])
   \<and> decode_jwt demo_loads ''a.b'' = Inl ValueError
   \<and> decode_jwt demo_loads ''a.e.b'' = Inl ValueError"
  using decode_jwt_round_trip [of "''eyJhbGciOiJub25lIn0''" "''sig''" demo_payload demo_loads
      "JObject [(''exp'', JInt 1700000000)]" False "''a.b''"]
    decode_jwt_round_trip [of "''x''" "''x''" "''{}''" demo_loads "JObject []" False "''a.e.b''"
      "''a''" "''e''" "''b''" ValueError]
  by (simp add: demo_loads_def demo_payload_def far_payload_def urlsafe_b64decode_def urlsafe_translate_def
      a2b_base64.simps b64_value_def char_of_is b64url_char_def)

text \<open>
  The claim as the spec states it fails where it says that a middle segment that is not
  valid base64 is rejected: \<^verbatim>\<open>e30!\<close> is not base64url text, and the token \<^verbatim>\<open>a.e30!.b\<close> decodes
  to the empty object, as \<^verbatim>\<open>a.e30.b\<close> does.
\<close>

theorem decode_jwt_lenient_counterexample:
  "\<not> base64url_text ''e30!''
   \<and> decode_jwt demo_loads ''a.e30!.b'' = Inr (JObject [])"
  by (simp add: base64url_text_def decode_jwt_def utils_decode_jwt_def urlsafe_b64decode_def
      urlsafe_translate_def a2b_base64.simps b64_value_def demo_loads_def demo_payload_def far_payload_def char_of_is)

subsection \<open>A payload without exp\<close>

text \<open>
  C6, as the code has it. For a token whose decoded payload is a dictionary without the
  key \<open>exp\<close>, \<open>is_token_expired\<close> does not return a value: \<^verbatim>\<open>jwt.get('exp')\<close> is \<^verbatim>\<open>None\<close>, and
  \<^verbatim>\<open>datetime.utcfromtimestamp(None)\<close> raises \<open>TypeError\<close>, which reaches the caller.
\<close>

theorem is_token_expired_missing_exp:
  "utils_decode_jwt loads token = Inr (JObject entries) \<Longrightarrow> map_of entries ''exp'' = None \<Longrightarrow>
   is_token_expired loads pads now (Some token) = Inl TypeError"
  by (simp add: is_token_expired_def dict_get_def compare_timestamp_with_current_def
      decode_timestamp_def)

theorem is_token_expired_missing_exp_witness:
  "is_token_expired demo_loads True 1762214400 (Some ''eyJhbGciOiJub25lIn0.e30.sig'')
     = Inl TypeError"
  using is_token_expired_missing_exp
    [of demo_loads "''eyJhbGciOiJub25lIn0.e30.sig''" "[]" True 1762214400]
  by (simp add: utils_decode_jwt_def urlsafe_b64decode_def
      urlsafe_translate_def a2b_base64.simps b64_value_def demo_loads_def demo_payload_def far_payload_def char_of_is)

text \<open>
  The claim as the spec states it fails on the kind of the error: what is raised is the
  built-in \<open>TypeError\<close>, not an error that the package defines for a missing claim.
\<close>

theorem is_token_expired_missing_exp_counterexample:
  "is_token_expired demo_loads False 1762214400 (Some ''a.e30.b'') = Inl TypeError
   \<and> \<not> package_error TypeError"
  by (simp add: is_token_expired_def dict_get_def compare_timestamp_with_current_def
      decode_timestamp_def utils_decode_jwt_def urlsafe_b64decode_def
      urlsafe_translate_def a2b_base64.simps b64_value_def demo_loads_def demo_payload_def far_payload_def char_of_is
      package_error_def)

section \<open>Properties of the expiry check\<close>

subsection \<open>The month and the day from the day of the year\<close>

text \<open>The estimate and its correction amount to a table of the first day of each month.\<close>

lemma month_day_ranges:
  assumes "0 \<le> k" and "k \<le> 364 + (if l then 1 else 0)"
  shows "month_day l k =
     (let L = (if l then 1 else 0) in
      if k < 31 then (1, k + 1)
      else if k < 59 + L then (2, k - 30)
      else if k < 90 + L then (3, k - 58 - L)
      else if k < 120 + L then (4, k - 89 - L)
      else if k < 151 + L then (5, k - 119 - L)
      else if k < 181 + L then (6, k - 150 - L)
      else if k < 212 + L then (7, k - 180 - L)
      else if k < 243 + L then (8, k - 211 - L)
      else if k < 273 + L then (9, k - 242 - L)
      else if k < 304 + L then (10, k - 272 - L)
      else if k < 334 + L then (11, k - 303 - L)
      else (12, k - 333 - L))"
proof -
  define m where "m = (k + 50) div 32"
  have "1 \<le> m" "m \<le> 12" using assms unfolding m_def by (auto split: if_splits)
  then have "m = 1 \<or> m = 2 \<or> m = 3 \<or> m = 4 \<or> m = 5 \<or> m = 6 \<or> m = 7 \<or> m = 8
    \<or> m = 9 \<or> m = 10 \<or> m = 11 \<or> m = 12" by arith
  then consider "m = 1" | "m = 2" | "m = 3" | "m = 4" | "m = 5" | "m = 6" | "m = 7" | "m = 8"
    | "m = 9" | "m = 10" | "m = 11" | "m = 12" by blast
  then show ?thesis
  proof cases
    case 1
    then have "k < 14" unfolding m_def by arith
    with 1 assms show ?thesis unfolding month_day_def m_def [symmetric] by (simp add: Let_def)
  next
    case 2
    then have "14 \<le> k" "k < 46" unfolding m_def by arith+
    with 2 assms show ?thesis unfolding month_day_def m_def [symmetric] by (simp add: Let_def)
  next
    case 3
    then have "46 \<le> k" "k < 78" unfolding m_def by arith+
    with 3 assms show ?thesis unfolding month_day_def m_def [symmetric] by (simp add: Let_def)
  next
    case 4
    then have "78 \<le> k" "k < 110" unfolding m_def by arith+
    with 4 assms show ?thesis unfolding month_day_def m_def [symmetric] by (simp add: Let_def)
  next
    case 5
    then have "110 \<le> k" "k < 142" unfolding m_def by arith+
    with 5 assms show ?thesis unfolding month_day_def m_def [symmetric] by (simp add: Let_def)
  next
    case 6
    then have "142 \<le> k" "k < 174" unfolding m_def by arith+
    with 6 assms show ?thesis unfolding month_day_def m_def [symmetric] by (simp add: Let_def)
  next
    case 7
    then have "174 \<le> k" "k < 206" unfolding m_def by arith+
    with 7 assms show ?thesis unfolding month_day_def m_def [symmetric] by (simp add: Let_def)
  next
    case 8
    then have "206 \<le> k" "k < 238" unfolding m_def by arith+
    with 8 assms show ?thesis unfolding month_day_def m_def [symmetric] by (simp add: Let_def)
  next
    case 9
    then have "238 \<le> k" "k < 270" unfolding m_def by arith+
    with 9 assms show ?thesis unfolding month_day_def m_def [symmetric] by (simp add: Let_def)
  next
    case 10
    then have "270 \<le> k" "k < 302" unfolding m_def by arith+
    with 10 assms show ?thesis unfolding month_day_def m_def [symmetric] by (simp add: Let_def)
  next
    case 11
    then have "302 \<le> k" "k < 334" unfolding m_def by arith+
    with 11 assms show ?thesis unfolding month_day_def m_def [symmetric] by (simp add: Let_def)
  next
    case 12
    then have "334 \<le> k" unfolding m_def by arith
    with 12 assms show ?thesis unfolding month_day_def m_def [symmetric] by (simp add: Let_def)
  qed
qed

subsection \<open>The date grows with the ordinal\<close>

text \<open>
  \<open>pseudo_ordinal\<close> grows strictly with the day, level by level. For the date that
  \<open>ord2ymd\<close> returns it is 366 times the years before plus the day of the year, the flag
  \<open>leapyear\<close> is the leap year rule of that year, and the month and day come from the day of
  the year. So a later day has a later year, or the same year and a later month and day.
\<close>

lemma divmod_lex:
  fixes x x' :: int
  assumes "0 < K" and "x < x'"
  shows "x div K < x' div K \<or> (x div K = x' div K \<and> x mod K < x' mod K)"
proof -
  have le: "x div K \<le> x' div K" using assms by (simp add: zdiv_mono1)
  have e: "x = K * (x div K) + x mod K" "x' = K * (x' div K) + x' mod K" by simp_all
  show ?thesis
  proof (cases "x div K = x' div K")
    case True
    then show ?thesis using e assms(2) by (metis add_less_cancel_left)
  next
    case False
    then show ?thesis using le by simp
  qed
qed

lemma pseudo4_lin:
  fixes d k :: int
  assumes "0 \<le> k" and "k < 365"
  shows "pseudo4 (365 * d + k) = (if d = 4 then 1463 else 366 * d + k)"
proof -
  have "(365 * d + k) div 365 = d" "(365 * d + k) mod 365 = k"
    using assms by simp_all
  then show ?thesis by (simp add: pseudo4_def)
qed

lemma split365:
  fixes r :: int
  obtains d k where "r = 365 * d + k" and "0 \<le> k" and "k < 365"
proof
  show "r = 365 * (r div 365) + r mod 365" by simp
  show "0 \<le> r mod 365" "r mod 365 < 365" by simp_all
qed

lemma pseudo4_bounds:
  assumes "0 \<le> r" and "r < 1461"
  shows "0 \<le> pseudo4 r \<and> pseudo4 r \<le> 1463 \<and> (r \<le> 1459 \<longrightarrow> pseudo4 r \<le> 1462)"
proof -
  obtain d k where r: "r = 365 * d + k" and k: "0 \<le> k" "k < 365" by (rule split365)
  have d: "0 \<le> d" "d \<le> 4" using assms r k by linarith+
  show ?thesis unfolding r pseudo4_lin [OF k] using d k assms r by (simp split: if_splits)
qed

lemma pseudo4_mono:
  assumes "0 \<le> r" and "r < r'" and "r' < 1461"
  shows "pseudo4 r < pseudo4 r'"
proof -
  obtain d k where r: "r = 365 * d + k" and k: "0 \<le> k" "k < 365" by (rule split365)
  obtain d' k' where r': "r' = 365 * d' + k'" and k': "0 \<le> k'" "k' < 365" by (rule split365)
  have d: "0 \<le> d" "d \<le> d'" "d' \<le> 4" using assms r k r' k' by linarith+
  have "(if d = 4 then 1463 else 366 * d + k) < (if d' = 4 then 1463 else 366 * d' + k')"
    using d k k' assms r r' by (simp split: if_splits)
  then show ?thesis unfolding r r' pseudo4_lin [OF k] pseudo4_lin [OF k'] .
qed

lemma split_by:
  fixes r K :: int
  assumes "0 < K"
  shows "\<exists>q k. r = K * q + k \<and> 0 \<le> k \<and> k < K \<and> q = r div K \<and> k = r mod K"
  using assms by simp

lemma pseudo100_lin:
  fixes c k :: int
  assumes "0 \<le> k" and "k < 1461"
  shows "pseudo100 (1461 * c + k) = 1464 * c + pseudo4 k"
proof -
  have "(1461 * c + k) div 1461 = c" "(1461 * c + k) mod 1461 = k"
    using assms by simp_all
  then show ?thesis by (simp add: pseudo100_def)
qed

lemma pseudo100_bounds:
  assumes "0 \<le> r" and "r < 36524"
  shows "0 \<le> pseudo100 r \<and> pseudo100 r \<le> 36598"
proof -
  obtain c k where r: "r = 1461 * c + k" and k: "0 \<le> k" "k < 1461"
    using split_by [of 1461 r, OF zero_less_numeral] by blast
  have c: "0 \<le> c" "c \<le> 24" using assms r k by linarith+
  have "c = 24 \<Longrightarrow> k \<le> 1459" using assms r by linarith
  then show ?thesis
    unfolding r pseudo100_lin [OF k] using pseudo4_bounds [OF k] c by (cases "c = 24") auto
qed

lemma pseudo100_mono:
  assumes "0 \<le> r" and "r < r'" and "r' < 36524"
  shows "pseudo100 r < pseudo100 r'"
proof -
  obtain c k where r: "r = 1461 * c + k" and k: "0 \<le> k" "k < 1461"
    using split_by [of 1461 r, OF zero_less_numeral] by blast
  obtain c' k' where r': "r' = 1461 * c' + k'" and k': "0 \<le> k'" "k' < 1461"
    using split_by [of 1461 r', OF zero_less_numeral] by blast
  have c: "c \<le> c'" using assms r k r' k' by linarith
  show ?thesis
  proof (cases "c = c'")
    case True
    then have "k < k'" using assms r r' by linarith
    then have "pseudo4 k < pseudo4 k'" using k k' by (intro pseudo4_mono) simp_all
    then show ?thesis unfolding r r' pseudo100_lin [OF k] pseudo100_lin [OF k'] using True by simp
  next
    case False
    then have "c + 1 \<le> c'" using c by linarith
    then show ?thesis
      unfolding r r' pseudo100_lin [OF k] pseudo100_lin [OF k'] using pseudo4_bounds [OF k] pseudo4_bounds [OF k']
      by linarith
  qed
qed

lemma pseudo400_lin:
  fixes b k :: int
  assumes "0 \<le> k" and "k < 36524"
  shows "pseudo400 (36524 * b + k) = (if b = 4 then 146399 else 36600 * b + pseudo100 k)"
proof -
  have "(36524 * b + k) div 36524 = b" "(36524 * b + k) mod 36524 = k"
    using assms by simp_all
  then show ?thesis by (simp add: pseudo400_def)
qed

lemma pseudo400_bounds:
  assumes "0 \<le> r" and "r < 146097"
  shows "0 \<le> pseudo400 r \<and> pseudo400 r \<le> 146399"
proof -
  obtain b k where r: "r = 36524 * b + k" and k: "0 \<le> k" "k < 36524"
    using split_by [of 36524 r, OF zero_less_numeral] by blast
  have b: "0 \<le> b" "b \<le> 4" using assms r k by linarith+
  show ?thesis
    unfolding r pseudo400_lin [OF k] using pseudo100_bounds [OF k] b by (auto split: if_splits)
qed

lemma pseudo400_mono:
  assumes "0 \<le> r" and "r < r'" and "r' < 146097"
  shows "pseudo400 r < pseudo400 r'"
proof -
  obtain b k where r: "r = 36524 * b + k" and k: "0 \<le> k" "k < 36524"
    using split_by [of 36524 r, OF zero_less_numeral] by blast
  obtain b' k' where r': "r' = 36524 * b' + k'" and k': "0 \<le> k'" "k' < 36524"
    using split_by [of 36524 r', OF zero_less_numeral] by blast
  have b: "0 \<le> b" "b \<le> b'" "b' \<le> 4" using assms r k r' k' by linarith+
  have b4: "b \<noteq> 4" using assms r k r' k' by linarith
  show ?thesis
  proof (cases "b = b'")
    case True
    then have "k < k'" using assms r r' by linarith
    then have "pseudo100 k < pseudo100 k'" using k k' by (intro pseudo100_mono) simp_all
    then show ?thesis unfolding r r' pseudo400_lin [OF k] pseudo400_lin [OF k'] using True b4 by simp
  next
    case False
    then have "b + 1 \<le> b'" using b by linarith
    then show ?thesis
      unfolding r r' pseudo400_lin [OF k] pseudo400_lin [OF k']
      using pseudo100_bounds [OF k] pseudo100_bounds [OF k'] b b4 by (auto split: if_splits)
  qed
qed

lemma pseudo_ordinal_mono:
  assumes "n < n'"
  shows "pseudo_ordinal n < pseudo_ordinal n'"
proof -
  obtain a k where n: "n = 146097 * a + k" and k: "0 \<le> k" "k < 146097"
    and a: "a = n div 146097" "k = n mod 146097"
    using split_by [of 146097 n, OF zero_less_numeral] by blast
  obtain a' k' where n': "n' = 146097 * a' + k'" and k': "0 \<le> k'" "k' < 146097"
    and a': "a' = n' div 146097" "k' = n' mod 146097"
    using split_by [of 146097 n', OF zero_less_numeral] by blast
  have le: "a \<le> a'" using assms n k n' k' by linarith
  have P: "pseudo_ordinal n = 146400 * a + pseudo400 k" "pseudo_ordinal n' = 146400 * a' + pseudo400 k'"
    by (simp_all add: pseudo_ordinal_def a a')
  show ?thesis
  proof (cases "a = a'")
    case True
    then have "k < k'" using assms n n' by linarith
    then have "pseudo400 k < pseudo400 k'" using k k' by (intro pseudo400_mono) simp_all
    then show ?thesis unfolding P using True by simp
  next
    case False
    then have "a + 1 \<le> a'" using le by linarith
    then show ?thesis
      unfolding P using pseudo400_bounds [OF k] pseudo400_bounds [OF k'] by linarith
  qed
qed

lemma month_day_bounds:
  assumes "0 \<le> k" and "k \<le> 364 + (if l then 1 else 0)" and "month_day l k = (m, d)"
  shows "1 \<le> m \<and> m \<le> 12 \<and> 1 \<le> d \<and> d \<le> 31"
  using assms unfolding month_day_ranges [OF assms(1,2)] Let_def
  by (auto split: if_splits)

lemma month_day_mono:
  assumes "0 \<le> k" and "k < k'" and "k' \<le> 364 + (if l then 1 else 0)"
    and "month_day l k = (m, d)" and "month_day l k' = (m', d')"
  shows "m < m' \<or> (m = m' \<and> d < d')"
proof -
  have k: "k \<le> 364 + (if l then 1 else 0)" and k': "0 \<le> k'" using assms by linarith+
  show ?thesis
    using assms(2,4,5)
    unfolding month_day_ranges [OF assms(1) k] month_day_ranges [OF k' assms(3)] Let_def
    by (auto split: if_splits)
qed

lemma mod_zero_range:
  fixes x K :: int
  assumes "1 \<le> x" and "x \<le> K"
  shows "x mod K = 0 \<longleftrightarrow> x = K"
proof (cases "x = K")
  case True
  then show ?thesis by simp
next
  case False
  then have "x mod K = x" using assms by simp
  then show ?thesis using assms False by simp
qed

lemma is_leap_digits:
  fixes a b c d :: int
  assumes "0 \<le> b" "b \<le> 3" "0 \<le> c" "c \<le> 24" "0 \<le> d" "d \<le> 3"
  shows "is_leap (400 * a + 100 * b + 4 * c + d + 1) \<longleftrightarrow> d = 3 \<and> (c \<noteq> 24 \<or> b = 3)"
proof -
  define y where "y = 400 * a + 100 * b + 4 * c + d + 1"
  have "y = 4 * (100 * a + 25 * b + c) + (d + 1)" by (simp add: y_def)
  then have "y mod 4 = (d + 1) mod 4" by (metis mod_mult_self4)
  then have m4: "y mod 4 = 0 \<longleftrightarrow> d = 3"
    using mod_zero_range [of "d + 1" 4] assms by simp
  have "y = 100 * (4 * a + b) + (4 * c + d + 1)" by (simp add: y_def)
  then have "y mod 100 = (4 * c + d + 1) mod 100" by (metis mod_mult_self4)
  then have m100: "y mod 100 = 0 \<longleftrightarrow> 4 * c + d + 1 = 100"
    using mod_zero_range [of "4 * c + d + 1" 100] assms by simp
  have "y = 400 * a + (100 * b + 4 * c + d + 1)" by (simp add: y_def)
  then have "y mod 400 = (100 * b + 4 * c + d + 1) mod 400" by (metis mod_mult_self4)
  then have m400: "y mod 400 = 0 \<longleftrightarrow> 100 * b + 4 * c + d + 1 = 400"
    using mod_zero_range [of "100 * b + 4 * c + d + 1" 400] assms by simp
  have "is_leap y \<longleftrightarrow> d = 3 \<and> (c \<noteq> 24 \<or> b = 3)"
    unfolding is_leap_def m4 m100 m400 using assms by auto
  then show ?thesis by (simp add: y_def)
qed

lemma month_day_last: "month_day True 365 = (12, 31)"
  by (simp add: month_day_def Let_def)

lemma ord2ymd_pseudo:
  assumes "ord2ymd n = (y, m, d)"
  shows "\<exists>k l. pseudo_ordinal (n - 1) = 366 * (y - 1) + k \<and> 0 \<le> k \<and> k \<le> 364 + (if l then 1 else 0)
           \<and> l = is_leap y \<and> month_day l k = (m, d)"
proof -
  obtain a r1 where n: "n - 1 = 146097 * a + r1" and r1: "0 \<le> r1" "r1 < 146097"
    and a: "a = (n - 1) div 146097" "r1 = (n - 1) mod 146097"
    using split_by [of 146097 "n - 1", OF zero_less_numeral] by blast
  obtain b r2 where r1_eq: "r1 = 36524 * b + r2" and r2: "0 \<le> r2" "r2 < 36524"
    and b: "b = r1 div 36524" "r2 = r1 mod 36524"
    using split_by [of 36524 r1, OF zero_less_numeral] by blast
  obtain c r3 where r2_eq: "r2 = 1461 * c + r3" and r3: "0 \<le> r3" "r3 < 1461"
    and c: "c = r2 div 1461" "r3 = r2 mod 1461"
    using split_by [of 1461 r2, OF zero_less_numeral] by blast
  obtain e r4 where r3_eq: "r3 = 365 * e + r4" and r4: "0 \<le> r4" "r4 < 365"
    and e: "e = r3 div 365" "r4 = r3 mod 365"
    using split_by [of 365 r3, OF zero_less_numeral] by blast
  have bb: "0 \<le> b" "b \<le> 4" using r1 r1_eq r2 by linarith+
  have cb: "0 \<le> c" "c \<le> 24" using r2 r2_eq r3 by linarith+
  have eb: "0 \<le> e" "e \<le> 4" using r3 r3_eq r4 by linarith+
  have b4: "b = 4 \<Longrightarrow> c = 0 \<and> e = 0" using r1 r1_eq r2 r2_eq r3 r3_eq r4 cb eb by linarith
  have e4: "e = 4 \<Longrightarrow> c \<le> 23" using r2 r2_eq r3_eq r4 by linarith
  have code: "ord2ymd n =
      (if e = 4 \<or> b = 4 then (a * 400 + 1 + b * 100 + c * 4 + e - 1, 12, 31)
       else (case month_day (e = 3 \<and> (c \<noteq> 24 \<or> b = 3)) r4 of
               (m, d) \<Rightarrow> (a * 400 + 1 + b * 100 + c * 4 + e, m, d)))"
    unfolding ord2ymd_def Let_def a(1) [symmetric] a(2) [symmetric] b(1) [symmetric]
      b(2) [symmetric] c(1) [symmetric] c(2) [symmetric] e(1) [symmetric] e(2) [symmetric]
    by simp
  have P: "pseudo_ordinal (n - 1) = 146400 * a + (if b = 4 then 146399
             else 36600 * b + (1464 * c + (if e = 4 then 1463 else 366 * e + r4)))"
  proof -
    have p4: "pseudo4 r3 = (if e = 4 then 1463 else 366 * e + r4)"
      using pseudo4_lin [OF r4, of e] by (simp only: r3_eq)
    have p100: "pseudo100 r2 = 1464 * c + pseudo4 r3"
      using pseudo100_lin [OF r3, of c] by (simp only: r2_eq)
    have p400: "pseudo400 r1 = (if b = 4 then 146399 else 36600 * b + pseudo100 r2)"
      using pseudo400_lin [OF r2, of b] by (simp only: r1_eq)
    have "pseudo_ordinal (n - 1) = 146400 * a + pseudo400 r1"
      by (simp only: pseudo_ordinal_def a(1) [symmetric] a(2) [symmetric])
    then show ?thesis by (simp only: p400 p100 p4)
  qed
  show ?thesis
  proof (cases "b = 4")
    case True
    then have y: "y = 400 * a + 400" "m = 12" "d = 31" using assms code b4 by simp_all
    have "is_leap (400 * a + 100 * 3 + 4 * 24 + 3 + 1)"
      by (subst is_leap_digits) simp_all
    then have "is_leap y" by (simp add: y algebra_simps)
    then show ?thesis using P True y month_day_last
      by (intro exI [of _ 365] exI [of _ True]) simp
  next
    case nb: False
    then have b3: "b \<le> 3" using bb by linarith
    show ?thesis
    proof (cases "e = 4")
      case True
      then have y: "y = 400 * a + 100 * b + 4 * c + 4" "m = 12" "d = 31"
        using assms code by simp_all
      have "is_leap (400 * a + 100 * b + 4 * c + 3 + 1)"
        using bb b3 cb e4 [OF True] by (subst is_leap_digits) simp_all
      then have "is_leap y" by (simp add: y algebra_simps)
      then show ?thesis using P True nb y month_day_last
        by (intro exI [of _ 365] exI [of _ True]) simp
    next
      case ne: False
      then have e3: "e \<le> 3" using eb by linarith
      define l where "l = (e = 3 \<and> (c \<noteq> 24 \<or> b = 3))"
      have y: "y = 400 * a + 100 * b + 4 * c + e + 1" and md: "month_day l r4 = (m, d)"
        using assms code nb ne by (auto simp add: l_def split: prod.splits)
      have "is_leap y = l"
        unfolding y l_def using bb b3 cb eb e3 by (intro is_leap_digits) simp_all
      then show ?thesis using P nb ne y md r4
        by (intro exI [of _ r4] exI [of _ l]) simp
    qed
  qed
qed

lemma ord2ymd_bounds:
  assumes "ord2ymd n = (y, m, d)"
  shows "1 \<le> m \<and> m \<le> 12 \<and> 1 \<le> d \<and> d \<le> 31"
proof -
  from ord2ymd_pseudo [OF assms] obtain k l where
    "0 \<le> k" "k \<le> 364 + (if l then 1 else 0)" "month_day l k = (m, d)" by blast
  then show ?thesis by (rule month_day_bounds)
qed

lemma year_le:
  fixes y y' k k' :: int
  assumes "366 * (y - 1) + k < 366 * (y' - 1) + k'" and "0 \<le> k" and "k' \<le> 365"
  shows "y \<le> y'"
proof (rule ccontr)
  assume "\<not> y \<le> y'"
  then have "y' + 1 \<le> y" by simp
  then have "366 * (y' + 1) \<le> 366 * y" by simp
  then show False using assms by simp
qed

lemma ord2ymd_mono:
  assumes "n < n'" and "ord2ymd n = (y, m, d)" and "ord2ymd n' = (y', m', d')"
  shows "y < y' \<or> (y = y' \<and> (m < m' \<or> (m = m' \<and> d < d')))"
proof -
  from ord2ymd_pseudo [OF assms(2)] obtain k l where
    P: "pseudo_ordinal (n - 1) = 366 * (y - 1) + k" and k: "0 \<le> k" "k \<le> 364 + (if l then 1 else 0)"
    and l: "l = is_leap y" and md: "month_day l k = (m, d)" by blast
  from ord2ymd_pseudo [OF assms(3)] obtain k' l' where
    P': "pseudo_ordinal (n' - 1) = 366 * (y' - 1) + k'" and k': "0 \<le> k'" "k' \<le> 364 + (if l' then 1 else 0)"
    and l': "l' = is_leap y'" and md': "month_day l' k' = (m', d')" by blast
  have "pseudo_ordinal (n - 1) < pseudo_ordinal (n' - 1)" using assms(1) by (intro pseudo_ordinal_mono) simp
  then have lt: "366 * (y - 1) + k < 366 * (y' - 1) + k'" by (simp only: P P')
  have k365: "k \<le> 365" "k' \<le> 365" using k k' by (auto split: if_splits)
  have le: "y \<le> y'" using lt k(1) k365(2) by (rule year_le)
  show ?thesis
  proof (cases "y = y'")
    case True
    then have "k < k'" using lt by simp
    moreover have "l' = l" using l l' True by simp
    ultimately have "m < m' \<or> (m = m' \<and> d < d')"
      using month_day_mono [of k k' l m d m' d'] k k' md md' by simp
    then show ?thesis using True by simp
  next
    case False
    then show ?thesis using le by linarith
  qed
qed

lemma gmtime_bounds:
  "1 \<le> month (gmtime t) \<and> month (gmtime t) \<le> 12 \<and> 1 \<le> day (gmtime t) \<and> day (gmtime t) \<le> 31
   \<and> 0 \<le> hour (gmtime t) \<and> hour (gmtime t) \<le> 23
   \<and> 0 \<le> minute (gmtime t) \<and> minute (gmtime t) \<le> 59
   \<and> 0 \<le> second (gmtime t) \<and> second (gmtime t) \<le> 59"
proof -
  obtain y m d where o: "ord2ymd (t div 86400 + 719163) = (y, m, d)"
    by (cases "ord2ymd (t div 86400 + 719163)") auto
  have s: "0 \<le> t mod 86400" "t mod 86400 < 86400" by simp_all
  obtain h r where hr: "t mod 86400 = 3600 * h + r" "0 \<le> r" "r < 3600"
    "h = (t mod 86400) div 3600" "r = (t mod 86400) mod 3600"
    using split_by [of 3600 "t mod 86400", OF zero_less_numeral] by blast
  have h: "0 \<le> h" "h \<le> 23" using s hr(1,2,3) by linarith+
  have "0 \<le> r div 60" "r div 60 \<le> 59" using hr(2,3) by simp_all
  then show ?thesis
    using ord2ymd_bounds [OF o] h
    by (simp add: gmtime_def Let_def o hr(4) [symmetric] hr(5) [symmetric])
qed

subsection \<open>The broken-down time grows with the timestamp\<close>

text \<open>A later timestamp is a later day, or the same day and a later time of day.\<close>

lemma lex_step:
  fixes q r q' r' K :: int
  assumes "K * q + r < K * q' + r'" and "0 \<le> r" and "r' < K" and "0 < K"
  shows "q < q' \<or> (q = q' \<and> r < r')"
proof (cases "q = q'")
  case True
  then show ?thesis using assms(1) by simp
next
  case False
  have "q \<le> q'"
  proof (rule ccontr)
    assume "\<not> q \<le> q'"
    then have "q' + 1 \<le> q" by simp
    then have "K * (q' + 1) \<le> K * q" using assms(4) by (simp add: mult_left_mono)
    then have "K * q' + K \<le> K * q" by (simp add: algebra_simps)
    then show False using assms(1,2,3) by linarith
  qed
  then show ?thesis using False by simp
qed

lemma gmtime_fields:
  obtains y m d h mi s where
    "gmtime t = \<lparr>year = y, month = m, day = d, hour = h, minute = mi, second = s\<rparr>"
    and "ord2ymd (t div 86400 + 719163) = (y, m, d)"
    and "t mod 86400 = 3600 * h + (60 * mi + s)"
    and "0 \<le> s" and "s < 60" and "0 \<le> mi" and "mi < 60" and "0 \<le> h" and "h < 24"
proof -
  obtain y m d where o: "ord2ymd (t div 86400 + 719163) = (y, m, d)"
    by (cases "ord2ymd (t div 86400 + 719163)") auto
  define secs where "secs = t mod 86400"
  have secs: "0 \<le> secs" "secs < 86400" by (simp_all add: secs_def)
  define h where "h = secs div 3600"
  define r where "r = secs mod 3600"
  define mi where "mi = r div 60"
  define s where "s = r mod 60"
  have r: "0 \<le> r" "r < 3600" by (simp_all add: r_def)
  have s: "0 \<le> s" "s < 60" by (simp_all add: s_def)
  have e1: "secs = 3600 * h + r" by (simp add: h_def r_def)
  have e2: "r = 60 * mi + s" by (simp add: mi_def s_def)
  have mi: "0 \<le> mi" "mi < 60" using r e2 s by linarith+
  have h: "0 \<le> h" "h < 24" using secs e1 r by linarith+
  have sec: "secs mod 60 = s"
    using mod_mod_cancel [of 60 3600 secs] by (simp add: s_def r_def)
  have g: "gmtime t = \<lparr>year = y, month = m, day = d, hour = h, minute = mi, second = s\<rparr>"
    by (simp add: gmtime_def Let_def o secs_def [symmetric] h_def [symmetric] r_def [symmetric]
        mi_def [symmetric] sec)
  show ?thesis
    using that [OF g o _ s mi h] e1 e2 by (simp add: secs_def)
qed

lemma gmtime_mono:
  assumes "t < t'"
  shows "datetime_less (gmtime t) (gmtime t')"
proof -
  obtain y m d h mi s where
    g: "gmtime t = \<lparr>year = y, month = m, day = d, hour = h, minute = mi, second = s\<rparr>"
    and o: "ord2ymd (t div 86400 + 719163) = (y, m, d)"
    and e: "t mod 86400 = 3600 * h + (60 * mi + s)"
    and b: "0 \<le> s" "s < 60" "0 \<le> mi" "mi < 60" "0 \<le> h" "h < 24"
    by (rule gmtime_fields)
  obtain y' m' d' h' mi' s' where
    g': "gmtime t' = \<lparr>year = y', month = m', day = d', hour = h', minute = mi', second = s'\<rparr>"
    and o': "ord2ymd (t' div 86400 + 719163) = (y', m', d')"
    and e': "t' mod 86400 = 3600 * h' + (60 * mi' + s')"
    and b': "0 \<le> s'" "s' < 60" "0 \<le> mi'" "mi' < 60" "0 \<le> h'" "h' < 24"
    by (rule gmtime_fields)
  from divmod_lex [of 86400 t t'] assms
  consider "t div 86400 < t' div 86400"
    | "t div 86400 = t' div 86400" "t mod 86400 < t' mod 86400" by auto
  then show ?thesis
  proof cases
    case 1
    then have "t div 86400 + 719163 < t' div 86400 + 719163" by simp
    from ord2ymd_mono [OF this o o'] show ?thesis
      by (simp add: g g' datetime_less_def) blast
  next
    case 2
    then have same: "y = y'" "m = m'" "d = d'" using o o' by simp_all
    have lt: "3600 * h + (60 * mi + s) < 3600 * h' + (60 * mi' + s')"
      using 2(2) by (simp only: e e')
    have r: "0 \<le> 60 * mi + s" "60 * mi' + s' < 3600" using b b' by linarith+
    have "h < h' \<or> (h = h' \<and> 60 * mi + s < 60 * mi' + s')"
      using lex_step [of 3600 h "60 * mi + s" h' "60 * mi' + s'"] lt r by simp
    moreover have "60 * mi + s < 60 * mi' + s' \<Longrightarrow> mi < mi' \<or> (mi = mi' \<and> s < s')"
      using lex_step [of 60 mi s mi' s'] b(1) b'(2) by simp
    ultimately have "h < h' \<or> h = h' \<and> (mi < mi' \<or> mi = mi' \<and> s < s')" by blast
    then show ?thesis by (simp add: g g' datetime_less_def same)
  qed
qed

subsection \<open>The formatted strings are ordered as the instants\<close>

text \<open>
  Numbers below \<open>10 ^ w\<close> printed with \<open>w\<close> digits are ordered as strings the way they are
  as numbers, and fields of equal width compare one after the other. The year of a
  timestamp is in the range 1 to 9999 exactly for the timestamps from -62135596800 to
  253402300799.
\<close>

lemma append_less_same_length:
  fixes a b x y :: "'a::linorder list"
  assumes "length a = length b"
  shows "a @ x < b @ y \<longleftrightarrow> a < b \<or> (a = b \<and> x < y)"
  using assms by (induction a b rule: list_induct2) auto

lemma of_char_digit: "a < 10 \<Longrightarrow> (of_char (digit a) :: nat) = 48 + a"
  by (simp add: digit_def)

lemma digit_less: "a < 10 \<Longrightarrow> b < 10 \<Longrightarrow> digit a < digit b \<longleftrightarrow> a < b"
  by (simp add: less_char_def of_char_digit)

lemma digit_eq: "a < 10 \<Longrightarrow> b < 10 \<Longrightarrow> digit a = digit b \<longleftrightarrow> a = b"
  using of_char_digit [of a] of_char_digit [of b] by (metis add_left_cancel)

lemma lex10:
  fixes q r q' r' :: nat
  assumes "r < 10" and "r' < 10"
  shows "(q < q' \<or> (q = q' \<and> r < r')) \<longleftrightarrow> 10 * q + r < 10 * q' + r'"
  using assms by linarith

lemma div_mod_lex10:
  fixes a b :: nat
  shows "(a div 10 < b div 10 \<or> (a div 10 = b div 10 \<and> a mod 10 < b mod 10)) \<longleftrightarrow> a < b"
  using lex10 [of "a mod 10" "b mod 10" "a div 10" "b div 10"] by simp

lemma digit_mod: "digit (n mod 10) = digit n"
  by (simp add: digit_def)

lemma length_zero_padded [simp]: "length (zero_padded w n) = w"
  by (simp add: zero_padded_def)

lemma zero_padded_Suc:
  "zero_padded (Suc w) n = zero_padded w (int (nat n div 10)) @ [digit (nat n)]"
proof -
  have "[0..<Suc w] = 0 # map Suc [0..<w]"
    by (simp add: upt_conv_Cons map_Suc_upt del: upt_Suc)
  then have "rev [0..<Suc w] = map Suc (rev [0..<w]) @ [0]"
    by (simp add: rev_map del: upt_Suc)
  then show ?thesis
    by (simp add: zero_padded_def div_mult2_eq del: upt_Suc)
qed

lemma zero_padded_order:
  fixes a b :: nat
  assumes "a < 10 ^ w" and "b < 10 ^ w"
  shows "(zero_padded w (int a) < zero_padded w (int b) \<longleftrightarrow> a < b)
         \<and> (zero_padded w (int a) = zero_padded w (int b) \<longleftrightarrow> a = b)"
  using assms
proof (induction w arbitrary: a b)
  case 0
  then show ?case by (simp add: zero_padded_def)
next
  case (Suc w)
  have a: "a div 10 < 10 ^ w" and b: "b div 10 < 10 ^ w"
    using Suc.prems by (simp_all add: less_mult_imp_div_less)
  note IH = Suc.IH [OF a b]
  have lt: "zero_padded (Suc w) (int a) < zero_padded (Suc w) (int b)
        \<longleftrightarrow> a div 10 < b div 10 \<or> (a div 10 = b div 10 \<and> a mod 10 < b mod 10)"
    using IH digit_less [of "a mod 10" "b mod 10"]
    by (simp add: zero_padded_Suc append_less_same_length digit_mod)
  have eq: "zero_padded (Suc w) (int a) = zero_padded (Suc w) (int b)
        \<longleftrightarrow> a div 10 = b div 10 \<and> a mod 10 = b mod 10"
    using IH digit_eq [of "a mod 10" "b mod 10"]
    by (simp add: zero_padded_Suc digit_mod)
  have 1: "a div 10 < b div 10 \<or> (a div 10 = b div 10 \<and> a mod 10 < b mod 10) \<longleftrightarrow> a < b"
    by (rule div_mod_lex10)
  have 2: "a div 10 = b div 10 \<and> a mod 10 = b mod 10 \<longleftrightarrow> a = b"
    by (metis div_mult_mod_eq)
  show ?case using lt eq 1 2 by simp
qed

lemma zero_padded_int_order:
  fixes a b :: int
  assumes "0 \<le> a" "a < 10 ^ w" "0 \<le> b" "b < 10 ^ w"
  shows "(zero_padded w a < zero_padded w b \<longleftrightarrow> a < b)"
    and "(zero_padded w a = zero_padded w b \<longleftrightarrow> a = b)"
proof -
  have a: "nat a < 10 ^ w" and b: "nat b < 10 ^ w"
    using assms by (simp_all add: nat_less_iff)
  have e: "zero_padded w a = zero_padded w (int (nat a))" "zero_padded w b = zero_padded w (int (nat b))"
    by (simp_all add: zero_padded_def)
  from zero_padded_order [OF a b]
  show "(zero_padded w a < zero_padded w b \<longleftrightarrow> a < b)"
    and "(zero_padded w a = zero_padded w b \<longleftrightarrow> a = b)"
    using assms(1,3) unfolding e by auto
qed

lemma year_gmtime_mono: "t \<le> t' \<Longrightarrow> year (gmtime t) \<le> year (gmtime t')"
proof (cases "t = t'")
  case True
  then show ?thesis by simp
next
  case False
  assume "t \<le> t'"
  with False have "t < t'" by simp
  from gmtime_mono [OF this] show ?thesis by (auto simp add: datetime_less_def)
qed

lemma year_at_bounds:
  "year (gmtime 253402300799) = 9999"
  "year (gmtime 253402300800) = 10000"
  "year (gmtime (- 62135596800)) = 1"
  "year (gmtime (- 62135596801)) = 0"
  "year (gmtime (- 30610224000)) = 1000"
  by (simp_all add: gmtime_def ord2ymd_def month_day_def Let_def)

lemma utcfromtimestamp_range:
  "utcfromtimestamp t =
     (if - 62135596800 \<le> t \<and> t \<le> 253402300799 then Inr (gmtime t) else Inl TimestampOutOfRange)"
proof -
  have "year (gmtime t) < 1 \<or> 9999 < year (gmtime t) \<longleftrightarrow> \<not> (- 62135596800 \<le> t \<and> t \<le> 253402300799)"
  proof
    assume "year (gmtime t) < 1 \<or> 9999 < year (gmtime t)"
    then show "\<not> (- 62135596800 \<le> t \<and> t \<le> 253402300799)"
      using year_gmtime_mono [of "- 62135596800" t] year_gmtime_mono [of t 253402300799]
      by (auto simp add: year_at_bounds)
  next
    assume "\<not> (- 62135596800 \<le> t \<and> t \<le> 253402300799)"
    then consider "t \<le> - 62135596801" | "253402300800 \<le> t" by linarith
    then show "year (gmtime t) < 1 \<or> 9999 < year (gmtime t)"
    proof cases
      case 1
      from year_gmtime_mono [OF this] show ?thesis by (simp add: year_at_bounds)
    next
      case 2
      from year_gmtime_mono [OF this] show ?thesis by (simp add: year_at_bounds)
    qed
  qed
  then show ?thesis by (simp add: utcfromtimestamp_def Let_def)
qed

lemma representable_year:
  assumes "representable pads t"
  shows "year_text pads (year (gmtime t)) = zero_padded 4 (year (gmtime t))"
    and "0 \<le> year (gmtime t)" and "year (gmtime t) < 10 ^ 4"
proof -
  have lo: "(if pads then 1 else 1000) \<le> year (gmtime t)"
    using assms year_gmtime_mono [of "- 62135596800" t] year_gmtime_mono [of "- 30610224000" t]
    by (auto simp add: representable_def year_at_bounds split: if_splits)
  have hi: "year (gmtime t) \<le> 9999"
    using assms year_gmtime_mono [of t 253402300799]
    by (simp add: representable_def year_at_bounds)
  show "year_text pads (year (gmtime t)) = zero_padded 4 (year (gmtime t))"
    using lo by (auto simp add: year_text_def split: if_splits)
  show "0 \<le> year (gmtime t)" using lo by (auto split: if_splits)
  show "year (gmtime t) < 10 ^ 4" using hi by simp
qed

lemma strftime_mono:
  assumes "t < t'" and "representable pads t" and "representable pads t'"
  shows "strftime pads (gmtime t) < strftime pads (gmtime t')"
proof -
  note b = gmtime_bounds [of t] gmtime_bounds [of t']
  note y = representable_year [OF assms(2)] representable_year [OF assms(3)]
  have Y: "zero_padded 4 (year (gmtime t)) < zero_padded 4 (year (gmtime t'))
             \<longleftrightarrow> year (gmtime t) < year (gmtime t')"
      "zero_padded 4 (year (gmtime t)) = zero_padded 4 (year (gmtime t'))
             \<longleftrightarrow> year (gmtime t) = year (gmtime t')"
    using y by (simp_all add: zero_padded_int_order)
  have M: "zero_padded 2 (month (gmtime t)) < zero_padded 2 (month (gmtime t'))
             \<longleftrightarrow> month (gmtime t) < month (gmtime t')"
      "zero_padded 2 (month (gmtime t)) = zero_padded 2 (month (gmtime t'))
             \<longleftrightarrow> month (gmtime t) = month (gmtime t')"
    using b by (simp_all add: zero_padded_int_order)
  have D: "zero_padded 2 (day (gmtime t)) < zero_padded 2 (day (gmtime t'))
             \<longleftrightarrow> day (gmtime t) < day (gmtime t')"
      "zero_padded 2 (day (gmtime t)) = zero_padded 2 (day (gmtime t'))
             \<longleftrightarrow> day (gmtime t) = day (gmtime t')"
    using b by (simp_all add: zero_padded_int_order)
  have H: "zero_padded 2 (hour (gmtime t)) < zero_padded 2 (hour (gmtime t'))
             \<longleftrightarrow> hour (gmtime t) < hour (gmtime t')"
      "zero_padded 2 (hour (gmtime t)) = zero_padded 2 (hour (gmtime t'))
             \<longleftrightarrow> hour (gmtime t) = hour (gmtime t')"
    using b by (simp_all add: zero_padded_int_order)
  have Mi: "zero_padded 2 (minute (gmtime t)) < zero_padded 2 (minute (gmtime t'))
             \<longleftrightarrow> minute (gmtime t) < minute (gmtime t')"
      "zero_padded 2 (minute (gmtime t)) = zero_padded 2 (minute (gmtime t'))
             \<longleftrightarrow> minute (gmtime t) = minute (gmtime t')"
    using b by (simp_all add: zero_padded_int_order)
  have S: "zero_padded 2 (second (gmtime t)) < zero_padded 2 (second (gmtime t'))
             \<longleftrightarrow> second (gmtime t) < second (gmtime t')"
    using b by (simp_all add: zero_padded_int_order)
  from gmtime_mono [OF assms(1)] show ?thesis
    by (simp add: strftime_def y(1,4) append_less_same_length Y M D H Mi S datetime_less_def)
qed

lemma strftime_less_iff:
  assumes "representable pads t" and "representable pads t'"
  shows "strftime pads (gmtime t) < strftime pads (gmtime t') \<longleftrightarrow> t < t'"
proof
  assume "t < t'"
  then show "strftime pads (gmtime t) < strftime pads (gmtime t')"
    using assms by (rule strftime_mono)
next
  assume l: "strftime pads (gmtime t) < strftime pads (gmtime t')"
  show "t < t'"
  proof (rule ccontr)
    assume "\<not> t < t'"
    then consider "t = t'" | "t' < t" by linarith
    then show False
    proof cases
      case 1
      then show False using l by simp
    next
      case 2
      from strftime_mono [OF this assms(2,1)] show False using l by simp
    qed
  qed
qed

subsection \<open>is_token_expired and _compare_timestamp_with_current\<close>

lemma compare_in_range:
  assumes "representable pads e" and "representable pads now"
  shows "compare_timestamp_with_current pads now (JInt e) = Inr (Some (e < now))"
proof -
  have r: "- 62135596800 \<le> e \<and> e \<le> 253402300799"
    using assms(1) by (auto simp add: representable_def split: if_splits)
  show ?thesis
    using strftime_less_iff [OF assms]
    by (auto simp add: compare_timestamp_with_current_def decode_timestamp_def
        utcfromtimestamp_range r Let_def not_le)
qed

text \<open>
  C5, as the code has it. \<open>is_token_expired\<close> returns \<open>None\<close> for the token \<open>None\<close>. For a
  token whose decoded payload is a dictionary with an integer \<open>exp\<close>, when \<open>exp\<close> and the
  clock lie in the years that \<^verbatim>\<open>datetime\<close> accepts and that are printed with four digits
  (\<open>representable\<close>), it returns \<open>True\<close> if \<open>exp\<close> is strictly earlier than the clock, in whole
  seconds, and \<open>False\<close> if it is at or after it: comparing the two formatted strings is the
  same as comparing the two numbers of seconds.
\<close>

theorem is_token_expired_integer_exp:
  assumes "utils_decode_jwt loads token = Inr (JObject entries)"
    and "map_of entries ''exp'' = Some (JInt e)"
    and "representable pads e" and "representable pads now"
  shows "is_token_expired loads pads now None = Inr None
         \<and> is_token_expired loads pads now (Some token) = Inr (Some (e < now))"
  using assms(1,2) compare_in_range [OF assms(3,4)]
  by (simp add: is_token_expired_def dict_get_def)

theorem is_token_expired_integer_exp_witness:
  "is_token_expired demo_loads False 1762214400 None = Inr None
   \<and> is_token_expired demo_loads False 1762214400
        (Some ''eyJhbGciOiJub25lIn0.eyJleHAiOjE3MDAwMDAwMDB9.sig'') = Inr (Some True)
   \<and> is_token_expired demo_loads False 1700000000
        (Some ''eyJhbGciOiJub25lIn0.eyJleHAiOjE3MDAwMDAwMDB9.sig'') = Inr (Some False)"
  using is_token_expired_integer_exp
      [of demo_loads "''eyJhbGciOiJub25lIn0.eyJleHAiOjE3MDAwMDAwMDB9.sig''"
        "[(''exp'', JInt 1700000000)]" 1700000000 False 1762214400]
    is_token_expired_integer_exp
      [of demo_loads "''eyJhbGciOiJub25lIn0.eyJleHAiOjE3MDAwMDAwMDB9.sig''"
        "[(''exp'', JInt 1700000000)]" 1700000000 False 1700000000]
  by (simp add: utils_decode_jwt_def urlsafe_b64decode_def urlsafe_translate_def
      a2b_base64.simps b64_value_def demo_loads_def demo_payload_def far_payload_def
      char_of_is representable_def)

text \<open>
  The claim as the spec states it, for every integer \<open>exp\<close>, fails: for the token whose
  payload is \<^verbatim>\<open>{"exp":253402300800}\<close>, the first second of the year 10000 and so after the
  clock, \<open>is_token_expired\<close> does not return \<open>False\<close>; \<^verbatim>\<open>utcfromtimestamp\<close> raises.
\<close>

theorem is_token_expired_year_10000_counterexample:
  "is_token_expired demo_loads True 1762214400
     (Some ''eyJhbGciOiJub25lIn0.eyJleHAiOjI1MzQwMjMwMDgwMH0.sig'') = Inl TimestampOutOfRange"
  by (simp add: is_token_expired_def dict_get_def compare_timestamp_with_current_def
      decode_timestamp_def utcfromtimestamp_range
      utils_decode_jwt_def urlsafe_b64decode_def urlsafe_translate_def
      a2b_base64.simps b64_value_def demo_loads_def demo_payload_def far_payload_def
      char_of_is)

text \<open>
  C10, as the code has it. For an integer timestamp in the years 1 to 9999
  \<open>compare_timestamp_with_current\<close> returns a boolean; for any other integer
  \<^verbatim>\<open>utcfromtimestamp\<close> raises. In no case does it fall through its two branches and return
  \<open>None\<close>. Hence \<open>is_token_expired\<close>, on a token whose payload holds an integer \<open>exp\<close> in
  those years, returns \<open>True\<close> or \<open>False\<close>.
\<close>

theorem compare_timestamp_never_none:
  "(- 62135596800 \<le> ts \<and> ts \<le> 253402300799
      \<longrightarrow> (\<exists>b. compare_timestamp_with_current pads now (JInt ts) = Inr (Some b)))
   \<and> (ts < - 62135596800 \<or> 253402300799 < ts
      \<longrightarrow> compare_timestamp_with_current pads now (JInt ts) = Inl TimestampOutOfRange)
   \<and> compare_timestamp_with_current pads now (JInt ts) \<noteq> Inr None
   \<and> (utils_decode_jwt loads token = Inr (JObject entries)
        \<and> map_of entries ''exp'' = Some (JInt ts)
        \<and> - 62135596800 \<le> ts \<and> ts \<le> 253402300799
      \<longrightarrow> (\<exists>b. is_token_expired loads pads now (Some token) = Inr (Some b)))"
  by (auto simp add: is_token_expired_def dict_get_def compare_timestamp_with_current_def
      decode_timestamp_def utcfromtimestamp_range Let_def)

theorem compare_timestamp_never_none_witness:
  "(\<exists>b. compare_timestamp_with_current False 1762214400 (JInt 1700000000) = Inr (Some b))
   \<and> compare_timestamp_with_current False 1762214400 (JInt (- 62135596801))
       = Inl TimestampOutOfRange
   \<and> compare_timestamp_with_current False 1762214400 (JInt 1700000000) \<noteq> Inr None
   \<and> (\<exists>b. is_token_expired demo_loads False 1762214400
        (Some ''eyJhbGciOiJub25lIn0.eyJleHAiOjE3MDAwMDAwMDB9.sig'') = Inr (Some b))"
  using compare_timestamp_never_none [of 1700000000 False 1762214400 demo_loads
        "''eyJhbGciOiJub25lIn0.eyJleHAiOjE3MDAwMDAwMDB9.sig''" "[(''exp'', JInt 1700000000)]"]
    compare_timestamp_never_none [of "- 62135596801" False 1762214400 demo_loads "''''" "[]"]
  by (simp add: utils_decode_jwt_def urlsafe_b64decode_def urlsafe_translate_def
      a2b_base64.simps b64_value_def demo_loads_def demo_payload_def far_payload_def
      char_of_is)

text \<open>
  The claim as the spec states it, a boolean for every integer timestamp, fails at the
  first second of the year 10000: the function raises and returns nothing.
\<close>

theorem compare_timestamp_year_10000_counterexample:
  "compare_timestamp_with_current True 1762214400 (JInt 253402300800) = Inl TimestampOutOfRange"
  by (simp add: compare_timestamp_with_current_def decode_timestamp_def utcfromtimestamp_range)

end
